theory Spec2Isabelle
  imports Main "HOL-Library.Product_Lexorder" "HOL-Library.Multiset"
begin

unbundle bit_operations_syntax

section \<open>Exceptions\<close>

text \<open>
  The exceptions of \<^verbatim>\<open>coilsnake.exceptions\<close> that \<^verbatim>\<open>data_blocks.py\<close> raises, and the
  built-in Python exceptions its statements can raise. A raise is the value \<open>Inl e\<close>.
\<close>

datatype error =
    OutOfBoundsError
  | InvalidArgumentError
  | NotEnoughUnallocatedSpaceError
  | FileAccessError
  | ValueNotUnsignedByteError
  | CouldNotAllocateError
  | IndexError
  | TypeError
  | OverflowError
  | NotImplementedError

section \<open>Block\<close>

text \<open>
  \<^verbatim>\<open>Block\<close> has the fields \<^verbatim>\<open>data\<close> (an \<^verbatim>\<open>array.array('B')\<close>) and \<^verbatim>\<open>size\<close>. Python
  integers do not wrap around, so offsets, sizes and byte values are \<open>int\<close>. The field
  \<^verbatim>\<open>size\<close> is stored beside the array, as in the source; \<open>block_ok\<close> says that it is the
  array's length and that the array holds unsigned bytes, which every constructor
  (\<^verbatim>\<open>from_list\<close>, \<^verbatim>\<open>from_array\<close>, \<^verbatim>\<open>from_file\<close>) establishes.

  The module is Python 2 (\<^verbatim>\<open>xrange\<close>, the built-in \<^verbatim>\<open>reduce\<close>, \<^verbatim>\<open>iteritems\<close>), which has
  two integer types, \<^verbatim>\<open>int\<close> and \<^verbatim>\<open>long\<close>. The integer branches of \<^verbatim>\<open>__getitem__\<close> and
  \<^verbatim>\<open>__setitem__\<close> are entered through \<^verbatim>\<open>isinstance(..., int)\<close>: \<open>getitem\<close> and \<open>setitem\<close>
  below are these branches, for a key and an item of type \<^verbatim>\<open>int\<close>. Where a method passes on
  an integer of its caller's (\<^verbatim>\<open>write_multi\<close>), the type is part of the value: see
  \<open>py_integer\<close>.
\<close>

record block =
  data :: "int list"
  size_b :: int

definition is_byte :: "int \<Rightarrow> bool" where
  "is_byte x = (0 \<le> x \<and> x \<le> 255)"

definition block_ok :: "'a block_scheme \<Rightarrow> bool" where
  "block_ok b = (size_b b = int (length (data b)) \<and> list_all is_byte (data b))"

text \<open>\<^verbatim>\<open>check_range_validity(range, size)\<close>\<close>

definition check_range_validity :: "int \<times> int \<Rightarrow> int \<Rightarrow> error + unit" where
  "check_range_validity r sz =
     (case r of (rbegin, rend) \<Rightarrow>
        if rend < rbegin then Inl InvalidArgumentError
        else if rbegin < 0 \<or> rend \<ge> sz then Inl OutOfBoundsError
        else Inr ())"

text \<open>
  Indexing a Python array with an integer: a negative index counts from the end, and an
  index outside \<open>[-n, n)\<close> raises \<^verbatim>\<open>IndexError\<close>.
\<close>

definition array_index :: "int list \<Rightarrow> int \<Rightarrow> error + nat" where
  "array_index xs k =
     (let n = int (length xs); j = (if k < 0 then k + n else k)
      in if 0 \<le> j \<and> j < n then Inr (nat j) else Inl IndexError)"

definition array_get :: "int list \<Rightarrow> int \<Rightarrow> error + int" where
  "array_get xs k = (case array_index xs k of Inl e \<Rightarrow> Inl e | Inr j \<Rightarrow> Inr (xs ! j))"

definition array_set :: "int list \<Rightarrow> int \<Rightarrow> int \<Rightarrow> error + int list" where
  "array_set xs k v = (case array_index xs k of Inl e \<Rightarrow> Inl e | Inr j \<Rightarrow> Inr (xs[j := v]))"

text \<open>
  \<^verbatim>\<open>self.data[start:stop]\<close> and \<^verbatim>\<open>self.data[start:stop] = item\<close> for \<open>0 \<le> start \<le> stop\<close>
  (the only slices that reach the array): Python clips both ends to the length, as
  \<open>take\<close> and \<open>drop\<close> do.
\<close>

definition array_slice :: "int list \<Rightarrow> int \<Rightarrow> int \<Rightarrow> int list" where
  "array_slice xs start stop = take (nat stop - nat start) (drop (nat start) xs)"

definition array_set_slice :: "int list \<Rightarrow> int \<Rightarrow> int \<Rightarrow> int list \<Rightarrow> int list" where
  "array_set_slice xs start stop item = take (nat start) xs @ item @ drop (nat stop) xs"

text \<open>\<^verbatim>\<open>array.array('B', item)\<close>: every element must be an unsigned byte.\<close>

definition array_B :: "int list \<Rightarrow> error + int list" where
  "array_B item = (if list_all is_byte item then Inr item else Inl OverflowError)"

text \<open>\<^verbatim>\<open>Block.__getitem__\<close>, the branch for an integer key.\<close>

definition getitem :: "'a block_scheme \<Rightarrow> int \<Rightarrow> error + int" where
  "getitem b key =
     (if key \<ge> size_b b then Inl OutOfBoundsError
      else array_get (data b) key)"

text \<open>
  \<^verbatim>\<open>Block.__getitem__\<close>, the branch for a slice \<^verbatim>\<open>start:stop\<close>; the new \<^verbatim>\<open>Block\<close> is
  filled by \<^verbatim>\<open>from_array\<close>.
\<close>

definition from_array :: "int list \<Rightarrow> block" where
  "from_array data_array = \<lparr>data = data_array, size_b = int (length data_array)\<rparr>"

definition getitem_slice :: "'a block_scheme \<Rightarrow> int \<Rightarrow> int \<Rightarrow> error + block" where
  "getitem_slice b start stop =
     (if start > stop then Inl InvalidArgumentError
      else if start < 0 \<or> stop - 1 \<ge> size_b b then Inl OutOfBoundsError
      else Inr (from_array (array_slice (data b) start stop)))"

definition to_list :: "'a block_scheme \<Rightarrow> int list" where
  "to_list b = data b"

text \<open>
  \<^verbatim>\<open>Block.__setitem__\<close>, the branch for an integer key and an integer item. A method that
  mutates returns the outcome and the block as the call leaves it.
\<close>

definition setitem :: "int \<Rightarrow> int \<Rightarrow> 'a block_scheme \<Rightarrow> (error + unit) \<times> 'a block_scheme" where
  "setitem key item b =
     (if item < 0 \<or> item > 255 then (Inl ValueNotUnsignedByteError, b)
      else if key \<ge> size_b b then (Inl OutOfBoundsError, b)
      else (case array_set (data b) key item of
              Inl e \<Rightarrow> (Inl e, b)
            | Inr xs \<Rightarrow> (Inr (), b\<lparr>data := xs\<rparr>)))"

text \<open>\<^verbatim>\<open>Block.__setitem__\<close>, the branch for a slice key and a list item.\<close>

definition setitem_slice ::
  "int \<Rightarrow> int \<Rightarrow> int list \<Rightarrow> 'a block_scheme \<Rightarrow> (error + unit) \<times> 'a block_scheme" where
  "setitem_slice start stop item b =
     (if start > stop then (Inl InvalidArgumentError, b)
      else if start < 0 \<or> stop - 1 \<ge> size_b b then (Inl OutOfBoundsError, b)
      else if int (length item) \<noteq> stop - start then (Inl InvalidArgumentError, b)
      else if stop - start = 0 then (Inl InvalidArgumentError, b)
      else (case array_B item of
              Inl e \<Rightarrow> (Inl e, b)
            | Inr bytes \<Rightarrow> (Inr (), b\<lparr>data := array_set_slice (data b) start stop bytes\<rparr>)))"

text \<open>
  \<^verbatim>\<open>reduce(f, xs)\<close> without an initial value: the first element starts the fold, and an
  empty sequence raises \<^verbatim>\<open>TypeError\<close>.
\<close>

definition reduce :: "('a \<Rightarrow> 'a \<Rightarrow> 'a) \<Rightarrow> 'a list \<Rightarrow> error + 'a" where
  "reduce f xs = (case xs of [] \<Rightarrow> Inl TypeError | x # rest \<Rightarrow> Inr (foldl f x rest))"

text \<open>\<^verbatim>\<open>Block.read_multi(key, size)\<close>\<close>

definition read_multi :: "'a block_scheme \<Rightarrow> int \<Rightarrow> int \<Rightarrow> error + int" where
  "read_multi b key sz =
     (if sz < 0 then Inl InvalidArgumentError
      else if sz = 0 then Inr 0
      else if key < 0 \<or> key \<ge> size_b b \<or> key + sz > size_b b then Inl OutOfBoundsError
      else (case getitem_slice b key (key + sz) of
              Inl e \<Rightarrow> Inl e
            | Inr out \<Rightarrow> reduce (\<lambda>x y. push_bit 8 x OR y) (rev (to_list out))))"

text \<open>
  The two integer types of Python 2. An \<^verbatim>\<open>int\<close> is a machine word: its value lies in
  \<open>[-maxint - 1, maxint]\<close> for the platform's \<^verbatim>\<open>sys.maxint\<close>, which the functions below
  take as the parameter \<open>maxint\<close>. A \<^verbatim>\<open>long\<close> is unbounded; every value outside the range
  of \<^verbatim>\<open>int\<close> is a \<^verbatim>\<open>long\<close>, and a value inside it is a \<^verbatim>\<open>long\<close> when it was written with
  the suffix \<^verbatim>\<open>L\<close> or computed from a \<^verbatim>\<open>long\<close>.

  \<open>py_and x m\<close> is \<^verbatim>\<open>x & m\<close> and \<open>py_rshift x n\<close> is \<^verbatim>\<open>x >> n\<close> for an \<^verbatim>\<open>int\<close> literal on the
  right: the result has the type of \<open>x\<close>. \<open>py_add maxint x n\<close> is \<^verbatim>\<open>x + n\<close>: the sum of
  two \<^verbatim>\<open>int\<close>s is an \<^verbatim>\<open>int\<close> when it fits and a \<^verbatim>\<open>long\<close> when it does not.
\<close>

datatype py_integer = PyInt int | PyLong int

fun py_val :: "py_integer \<Rightarrow> int" where
  "py_val (PyInt v) = v"
| "py_val (PyLong v) = v"

fun py_and :: "py_integer \<Rightarrow> int \<Rightarrow> py_integer" where
  "py_and (PyInt v) m = PyInt (v AND m)"
| "py_and (PyLong v) m = PyLong (v AND m)"

fun py_rshift :: "py_integer \<Rightarrow> nat \<Rightarrow> py_integer" where
  "py_rshift (PyInt v) n = PyInt (drop_bit n v)"
| "py_rshift (PyLong v) n = PyLong (drop_bit n v)"

fun py_add :: "int \<Rightarrow> py_integer \<Rightarrow> int \<Rightarrow> py_integer" where
  "py_add maxint (PyInt v) n =
     (if - maxint - 1 \<le> v + n \<and> v + n \<le> maxint then PyInt (v + n) else PyLong (v + n))"
| "py_add maxint (PyLong v) n = PyLong (v + n)"

text \<open>
  \<^verbatim>\<open>Block.__setitem__\<close> called with an integer key and an integer item of either type:
  the branch \<^verbatim>\<open>isinstance(key, int) and isinstance(item, int)\<close> is \<open>setitem\<close>, and a
  \<^verbatim>\<open>long\<close> on either side falls through to \<^verbatim>\<open>raise TypeError\<close>.
\<close>

fun setitem_py ::
  "py_integer \<Rightarrow> py_integer \<Rightarrow> 'a block_scheme \<Rightarrow> (error + unit) \<times> 'a block_scheme" where
  "setitem_py (PyInt key) (PyInt item) b = setitem key item b"
| "setitem_py key item b = (Inl TypeError, b)"

text \<open>
  \<^verbatim>\<open>Block.write_multi(key, item, size)\<close>: the \<^verbatim>\<open>while size > 0\<close> loop, one byte per
  iteration, stopping at the first exception. \<^verbatim>\<open>key\<close> and \<^verbatim>\<open>item\<close> reach
  \<^verbatim>\<open>__setitem__\<close>, so they carry their type; \<^verbatim>\<open>size\<close> is only compared and decremented.
\<close>

function write_multi_loop ::
  "int \<Rightarrow> py_integer \<Rightarrow> py_integer \<Rightarrow> int \<Rightarrow> 'a block_scheme
     \<Rightarrow> (error + unit) \<times> 'a block_scheme" where
  "write_multi_loop maxint key item sz b =
     (if sz > 0 then
        (case setitem_py key (py_and item 0xff) b of
           (Inl e, b') \<Rightarrow> (Inl e, b')
         | (Inr u, b') \<Rightarrow>
             write_multi_loop maxint (py_add maxint key 1) (py_rshift item 8) (sz - 1) b')
      else (Inr (), b))"
  by pat_completeness auto
termination
  by (relation "measure (\<lambda>(maxint, key, item, sz, b). nat sz)") auto

definition write_multi ::
  "int \<Rightarrow> py_integer \<Rightarrow> py_integer \<Rightarrow> int \<Rightarrow> 'a block_scheme
     \<Rightarrow> (error + unit) \<times> 'a block_scheme" where
  "write_multi maxint key item sz b =
     (if sz < 0 then (Inl InvalidArgumentError, b)
      else if py_val key < 0 \<or> py_val key \<ge> size_b b \<or> py_val key + sz > size_b b then
        (Inl OutOfBoundsError, b)
      else if sz = 0 then (Inr (), b)
      else write_multi_loop maxint key item sz b)"

section \<open>AllocatableBlock\<close>

text \<open>
  \<^verbatim>\<open>AllocatableBlock\<close> adds \<^verbatim>\<open>unallocated_ranges\<close>, a Python list of \<^verbatim>\<open>(begin, end)\<close>
  tuples, both ends inclusive.
\<close>

record ablock = block +
  unallocated_ranges :: "(int \<times> int) list"

text \<open>\<^verbatim>\<open>del xs[i]\<close> and \<^verbatim>\<open>xs.insert(i, x)\<close> for an index \<open>i\<close> inside the list.\<close>

definition list_del :: "nat \<Rightarrow> 'a list \<Rightarrow> 'a list" where
  "list_del i xs = take i xs @ drop (Suc i) xs"

definition list_insert :: "nat \<Rightarrow> 'a \<Rightarrow> 'a list \<Rightarrow> 'a list" where
  "list_insert i x xs = take i xs @ x # drop i xs"

text \<open>
  The index at which a \<^verbatim>\<open>for i in range(len(xs))\<close> loop leaves through its first branch
  that returns: the first \<open>i\<close> whose element passes the test.
\<close>

fun first_index :: "('a \<Rightarrow> bool) \<Rightarrow> 'a list \<Rightarrow> nat option" where
  "first_index P [] = None"
| "first_index P (x # xs) = (if P x then Some 0 else map_option Suc (first_index P xs))"

text \<open>
  The three tests of the loop of \<^verbatim>\<open>mark_allocated\<close>, in the order of its
  \<^verbatim>\<open>if\<close>/\<^verbatim>\<open>elif\<close>/\<^verbatim>\<open>elif\<close>; an entry that passes none of them is skipped.
\<close>

definition mark_test :: "int \<Rightarrow> int \<Rightarrow> int \<times> int \<Rightarrow> bool" where
  "mark_test allocated_begin allocated_end a =
     (case a of (rbegin, rend) \<Rightarrow>
        allocated_begin = rbegin
        \<or> (allocated_begin > rbegin \<and> allocated_end \<le> rend)
        \<or> (allocated_begin > rbegin \<and> allocated_begin < rend \<and> allocated_end > rend))"

text \<open>
  \<^verbatim>\<open>AllocatableBlock.mark_allocated(used_range)\<close>. The recursive calls start again at
  \<^verbatim>\<open>check_range_validity\<close> and at index 0, as in the source.
\<close>

function mark_allocated ::
  "int \<times> int \<Rightarrow> 'a ablock_scheme \<Rightarrow> (error + unit) \<times> 'a ablock_scheme" where
  "mark_allocated (allocated_begin, allocated_end) blk =
     (case check_range_validity (allocated_begin, allocated_end) (size_b blk) of
        Inl err \<Rightarrow> (Inl err, blk)
      | Inr u \<Rightarrow>
         (case first_index (mark_test allocated_begin allocated_end) (unallocated_ranges blk) of
            None \<Rightarrow> (Inl CouldNotAllocateError, blk)
          | Some i \<Rightarrow>
             (case unallocated_ranges blk ! i of (rbegin, rend) \<Rightarrow>
                if allocated_begin = rbegin then
                  if allocated_end < rend then
                    (Inr (), blk\<lparr>unallocated_ranges :=
                       (unallocated_ranges blk)[i := (allocated_end + 1, rend)]\<rparr>)
                  else if allocated_end = rend then
                    (Inr (), blk\<lparr>unallocated_ranges := list_del i (unallocated_ranges blk)\<rparr>)
                  else
                    mark_allocated (rend + 1, allocated_end)
                      (blk\<lparr>unallocated_ranges := list_del i (unallocated_ranges blk)\<rparr>)
                else if allocated_begin > rbegin \<and> allocated_end \<le> rend then
                  if allocated_end \<noteq> rend then
                    (Inr (), blk\<lparr>unallocated_ranges :=
                       sort (list_insert i (allocated_end + 1, rend)
                              ((unallocated_ranges blk)[i := (rbegin, allocated_begin - 1)]))\<rparr>)
                  else
                    (Inr (), blk\<lparr>unallocated_ranges :=
                       (unallocated_ranges blk)[i := (rbegin, allocated_begin - 1)]\<rparr>)
                else
                  mark_allocated (rend + 1, allocated_end)
                    (blk\<lparr>unallocated_ranges :=
                       (unallocated_ranges blk)[i := (rbegin, allocated_begin - 1)]\<rparr>))))"
  by pat_completeness auto
termination
proof (relation "measures [\<lambda>(r, blk). length (unallocated_ranges blk),
                           \<lambda>(r, blk). nat (snd r - fst r)]", goal_cases)
  case 1
  show ?case by simp
next
  case (2 allocated_begin allocated_end blk u i rbegin rend)
  have "first_index P xs = Some j \<Longrightarrow> j < length xs" for P :: "int \<times> int \<Rightarrow> bool" and xs j
    by (induction xs arbitrary: j) (auto split: if_splits)
  with 2 have "i < length (unallocated_ranges blk)" by blast
  then show ?case by (auto simp: list_del_def)
next
  case (3 allocated_begin allocated_end blk u i rbegin rend)
  have "first_index P xs = Some j \<Longrightarrow> P (xs ! j)" for P :: "int \<times> int \<Rightarrow> bool" and xs j
    by (induction xs arbitrary: j) (auto split: if_splits)
  with 3 have "mark_test allocated_begin allocated_end (unallocated_ranges blk ! i)" by blast
  with 3 show ?case by (auto simp: mark_test_def)
qed

declare mark_allocated.simps [simp del]

text \<open>\<^verbatim>\<open>AllocatableBlock.is_unallocated(range)\<close> and \<^verbatim>\<open>is_allocated(range)\<close>\<close>

definition is_unallocated :: "int \<times> int \<Rightarrow> 'a ablock_scheme \<Rightarrow> error + bool" where
  "is_unallocated r blk =
     (case check_range_validity r (size_b blk) of
        Inl err \<Rightarrow> Inl err
      | Inr u \<Rightarrow>
         (case r of (search_begin, search_end) \<Rightarrow>
            Inr (list_ex (\<lambda>(rbegin, rend). search_begin \<ge> rbegin \<and> search_end \<le> rend)
                   (unallocated_ranges blk))))"

definition is_allocated :: "int \<times> int \<Rightarrow> 'a ablock_scheme \<Rightarrow> error + bool" where
  "is_allocated r blk =
     (case is_unallocated r blk of Inl err \<Rightarrow> Inl err | Inr free \<Rightarrow> Inr (\<not> free))"

text \<open>\<^verbatim>\<open>AllocatableBlock.deallocate(range)\<close>\<close>

definition deallocate ::
  "int \<times> int \<Rightarrow> 'a ablock_scheme \<Rightarrow> (error + unit) \<times> 'a ablock_scheme" where
  "deallocate r blk =
     (case check_range_validity r (size_b blk) of
        Inl err \<Rightarrow> (Inl err, blk)
      | Inr u \<Rightarrow> (Inr (), blk\<lparr>unallocated_ranges := sort (unallocated_ranges blk @ [r])\<rparr>))"

text \<open>
  \<^verbatim>\<open>AllocatableBlock.allocate(data, size, can_write_to)\<close>; an argument left at its default
  \<^verbatim>\<open>None\<close> is \<open>None\<close>.

  \<open>can_write\<close> is the test \<^verbatim>\<open>(can_write_to is not None) and (not can_write_to(begin))\<close>
  negated. \<open>allocate_search\<close> is the \<^verbatim>\<open>for\<close> loop: it returns the allocated range and
  the list as the loop leaves it, or \<open>None\<close> when the loop ends with
  \<^verbatim>\<open>allocated_range\<close> still \<^verbatim>\<open>None\<close>.
\<close>

definition can_write :: "(int \<Rightarrow> bool) option \<Rightarrow> int \<Rightarrow> bool" where
  "can_write can_write_to rbegin =
     (case can_write_to of None \<Rightarrow> True | Some f \<Rightarrow> f rbegin)"

fun allocate_search ::
  "int \<Rightarrow> (int \<Rightarrow> bool) option \<Rightarrow> (int \<times> int) list
     \<Rightarrow> ((int \<times> int) \<times> (int \<times> int) list) option" where
  "allocate_search sz can_write_to [] = None"
| "allocate_search sz can_write_to ((rbegin, rend) # rest) =
     (if sz \<le> rend - rbegin + 1 \<and> can_write can_write_to rbegin then
        Some ((rbegin, rbegin + sz - 1),
              (if rbegin + sz - 1 = rend then rest else (rbegin + sz, rend) # rest))
      else
        map_option (\<lambda>(r, rest'). (r, (rbegin, rend) # rest'))
          (allocate_search sz can_write_to rest))"

definition allocate ::
  "int list option \<Rightarrow> int option \<Rightarrow> (int \<Rightarrow> bool) option \<Rightarrow> 'a ablock_scheme
     \<Rightarrow> (error + int) \<times> 'a ablock_scheme" where
  "allocate data_arg size_arg can_write_to blk =
     (if data_arg = None \<and> size_arg = None then (Inl InvalidArgumentError, blk)
      else if size_arg \<noteq> None \<and> data_arg \<noteq> None
              \<and> the size_arg \<noteq> int (length (the data_arg)) then
        (Inl InvalidArgumentError, blk)
      else
        (let sz = (case size_arg of None \<Rightarrow> int (length (the data_arg)) | Some n \<Rightarrow> n) in
         if sz \<le> 0 then (Inl InvalidArgumentError, blk)
         else
           (case allocate_search sz can_write_to (unallocated_ranges blk) of
              None \<Rightarrow> (Inl NotEnoughUnallocatedSpaceError, blk)
            | Some (allocated_range, ranges') \<Rightarrow>
                (let blk' = blk\<lparr>unallocated_ranges := ranges'\<rparr> in
                 case data_arg of
                   None \<Rightarrow> (Inr (fst allocated_range), blk')
                 | Some d \<Rightarrow>
                    (case setitem_slice (fst allocated_range) (snd allocated_range + 1) d blk' of
                       (Inl err, blk'') \<Rightarrow> (Inl err, blk'')
                     | (Inr u, blk'') \<Rightarrow> (Inr (fst allocated_range), blk''))))))"

section \<open>Rom\<close>

text \<open>
  \<^verbatim>\<open>ROM_TYPE_MAP\<close> is loaded from \<^verbatim>\<open>resources/romtypes.yml\<close>, which is data outside the
  module: the functions take it as a parameter, a list of \<^verbatim>\<open>(type_name, d)\<close> in the
  order in which \<^verbatim>\<open>iteritems()\<close> yields them. Of each entry \<^verbatim>\<open>d\<close> detection reads
  \<^verbatim>\<open>d['offset']\<close>, \<^verbatim>\<open>d['data']\<close> and \<^verbatim>\<open>d['platform']\<close>.
\<close>

record rom_type_entry =
  d_offset :: int
  d_data :: "int list"
  d_platform :: string

type_synonym rom_type_map = "(string \<times> rom_type_entry) list"

definition ROM_TYPE_NAME_UNKNOWN :: string where
  "ROM_TYPE_NAME_UNKNOWN = ''Unknown''"

record rom = ablock +
  rom_type :: string

text \<open>
  The tests of \<^verbatim>\<open>_detect_type\<close>. \<open>complement_pair b k1 k2\<close> is
  \<^verbatim>\<open>~self[k1] & 0xff == self[k2]\<close> and \<open>signature_at b start d\<close> is
  \<^verbatim>\<open>self[start:start + len(data)].to_list() == data\<close>; \<open>variant_test\<close> joins two pairs
  and the signature with the short-circuit \<^verbatim>\<open>and\<close>, and \<open>try_variant\<close> is the
  \<^verbatim>\<open>try\<close> block around it: \<^verbatim>\<open>except OutOfBoundsError: pass\<close> makes the variant not
  match, any other exception leaves \<^verbatim>\<open>_detect_type\<close>.
\<close>

definition complement_pair :: "'a block_scheme \<Rightarrow> int \<Rightarrow> int \<Rightarrow> error + bool" where
  "complement_pair b k1 k2 =
     (case getitem b k1 of
        Inl e \<Rightarrow> Inl e
      | Inr x \<Rightarrow> (case getitem b k2 of Inl e \<Rightarrow> Inl e | Inr y \<Rightarrow> Inr (NOT x AND 255 = y)))"

definition signature_at :: "'a block_scheme \<Rightarrow> int \<Rightarrow> int list \<Rightarrow> error + bool" where
  "signature_at b start d =
     (case getitem_slice b start (start + int (length d)) of
        Inl e \<Rightarrow> Inl e
      | Inr out \<Rightarrow> Inr (to_list out = d))"

definition variant_test ::
  "'a block_scheme \<Rightarrow> int \<Rightarrow> int \<Rightarrow> int \<Rightarrow> int \<Rightarrow> int \<Rightarrow> int list \<Rightarrow> error + bool" where
  "variant_test b k1 k2 k3 k4 start d =
     (case complement_pair b k1 k2 of
        Inl e \<Rightarrow> Inl e
      | Inr p \<Rightarrow>
         if \<not> p then Inr False
         else (case complement_pair b k3 k4 of
                 Inl e \<Rightarrow> Inl e
               | Inr q \<Rightarrow> if \<not> q then Inr False else signature_at b start d))"

definition try_variant ::
  "'a block_scheme \<Rightarrow> int \<Rightarrow> int \<Rightarrow> int \<Rightarrow> int \<Rightarrow> int \<Rightarrow> int list \<Rightarrow> error + bool" where
  "try_variant b k1 k2 k3 k4 start d =
     (case variant_test b k1 k2 k3 k4 start d of
        Inl e \<Rightarrow> (if e = OutOfBoundsError then Inr False else Inl e)
      | Inr m \<Rightarrow> Inr m)"

definition try_signature :: "'a block_scheme \<Rightarrow> int \<Rightarrow> int list \<Rightarrow> error + bool" where
  "try_signature b start d =
     (case signature_at b start d of
        Inl e \<Rightarrow> (if e = OutOfBoundsError then Inr False else Inl e)
      | Inr m \<Rightarrow> Inr m)"

text \<open>The two statements under \<^verbatim>\<open># Remove header\<close>.\<close>

definition remove_header :: "'a block_scheme \<Rightarrow> 'a block_scheme" where
  "remove_header b = b\<lparr>data := drop 512 (data b), size_b := size_b b - 512\<rparr>"

text \<open>
  \<^verbatim>\<open>Rom._detect_type()\<close>: one equation per turn of the \<^verbatim>\<open>for\<close> loop, the empty list
  being its \<^verbatim>\<open>else\<close> clause. The four \<^verbatim>\<open>try\<close> blocks are unheadered HiROM, unheadered
  LoROM, headered HiROM and headered LoROM, in this order.
\<close>

fun detect_type :: "rom_type_map \<Rightarrow> 'a block_scheme \<Rightarrow> (error + string) \<times> 'a block_scheme" where
  "detect_type [] b = (Inr ROM_TYPE_NAME_UNKNOWN, b)"
| "detect_type ((type_name, d) # rest) b =
     (if d_platform d = ''SNES'' then
        (case try_variant b 0xffdc 0xffde 0xffdd 0xffdf (d_offset d) (d_data d) of
           Inl e \<Rightarrow> (Inl e, b)
         | Inr m1 \<Rightarrow>
            if m1 then (Inr type_name, b)
            else
        (case try_variant b 0x7fdc 0x7fde 0x7fdd 0x7fdf (d_offset d) (d_data d) of
           Inl e \<Rightarrow> (Inl e, b)
         | Inr m2 \<Rightarrow>
            if m2 then (Inr type_name, b)
            else
        (case try_variant b 0x101dc 0x101de 0x101dd 0x101df (d_offset d + 0x200) (d_data d) of
           Inl e \<Rightarrow> (Inl e, b)
         | Inr m3 \<Rightarrow>
            if m3 then (Inr type_name, remove_header b)
            else
        (case try_variant b 0x81dc 0x81de 0x81dd 0x81df (d_offset d + 0x200) (d_data d) of
           Inl e \<Rightarrow> (Inl e, b)
         | Inr m4 \<Rightarrow>
            if m4 then (Inr type_name, remove_header b)
            else detect_type rest b))))
      else
        (case try_signature b (d_offset d) (d_data d) of
           Inl e \<Rightarrow> (Inl e, b)
         | Inr m \<Rightarrow> if m then (Inr type_name, b) else detect_type rest b))"

text \<open>\<^verbatim>\<open>Rom.add_header()\<close>\<close>

definition add_header :: "'a rom_scheme \<Rightarrow> (error + unit) \<times> 'a rom_scheme" where
  "add_header r =
     (if rom_type r = ''Earthbound'' then
        (Inr (), r\<lparr>data := replicate 512 0 @ data r, size_b := size_b r + 512\<rparr>)
      else (Inl NotImplementedError, r))"

text \<open>
  \<^verbatim>\<open>Rom.expand(desired_size)\<close>. \<open>expand_copy\<close> is the loop
  \<^verbatim>\<open>for i in xrange(0x8000, 0x8000 + 0x8000): self[0x400000 + i] = self[i]\<close> over the list
  of its indices.
\<close>

fun expand_copy :: "int list \<Rightarrow> 'a block_scheme \<Rightarrow> (error + unit) \<times> 'a block_scheme" where
  "expand_copy [] b = (Inr (), b)"
| "expand_copy (i # rest) b =
     (case getitem b i of
        Inl e \<Rightarrow> (Inl e, b)
      | Inr v \<Rightarrow>
         (case setitem (0x400000 + i) v b of
            (Inl e, b') \<Rightarrow> (Inl e, b')
          | (Inr u, b') \<Rightarrow> expand_copy rest b'))"

definition xrange :: "int \<Rightarrow> int \<Rightarrow> int list" where
  "xrange lo hi = [lo..hi - 1]"

definition expand :: "int \<Rightarrow> 'a rom_scheme \<Rightarrow> (error + unit) \<times> 'a rom_scheme" where
  "expand desired_size r =
     (if rom_type r = ''Earthbound'' then
        if desired_size \<noteq> 0x400000 \<and> desired_size \<noteq> 0x600000 then
          (Inl InvalidArgumentError, r)
        else
          (let r1 = (if size_b r = 0x300000
                     then r\<lparr>data := data r @ replicate 0x100000 0,
                            size_b := size_b r + 0x100000\<rparr>
                     else r)
           in if desired_size = 0x600000 \<and> size_b r1 = 0x400000 then
                (case setitem 0x00ffd5 0x25 r1 of
                   (Inl e, r2) \<Rightarrow> (Inl e, r2)
                 | (Inr u, r2) \<Rightarrow>
                    (case setitem 0x00ffd7 0x0d r2 of
                       (Inl e, r3) \<Rightarrow> (Inl e, r3)
                     | (Inr u, r3) \<Rightarrow>
                        expand_copy (xrange 0x8000 (0x8000 + 0x8000))
                          (r3\<lparr>data := data r3 @ replicate 0x200000 0,
                              size_b := size_b r3 + 0x200000\<rparr>)))
              else (Inr (), r1))
      else (Inl NotImplementedError, r))"

section \<open>Notions used in the statements\<close>

text \<open>
  The little-endian bytes of an integer, least significant first, and the value of a
  list of bytes read the same way.
\<close>

fun le_bytes :: "int \<Rightarrow> nat \<Rightarrow> int list" where
  "le_bytes v 0 = []"
| "le_bytes v (Suc n) = (v AND 255) # le_bytes (drop_bit 8 v) n"

fun le_value :: "int list \<Rightarrow> int" where
  "le_value [] = 0"
| "le_value (x # xs) = x + 256 * le_value xs"

definition three_bytes :: block where
  "three_bytes = \<lparr>data = [10, 20, 30], size_b = 3\<rparr>"

text \<open>
  The size \<^verbatim>\<open>allocate\<close> works with: \<^verbatim>\<open>size\<close> when it is given, else \<^verbatim>\<open>len(data)\<close>; none
  when neither is given. A request is invalid when neither is given, when both are given
  and differ, or when this size is not positive.
\<close>

definition effective_size :: "int list option \<Rightarrow> int option \<Rightarrow> int option" where
  "effective_size data_arg size_arg =
     (case size_arg of Some n \<Rightarrow> Some n | None \<Rightarrow> map_option (\<lambda>d. int (length d)) data_arg)"

definition invalid_request :: "int list option \<Rightarrow> int option \<Rightarrow> bool" where
  "invalid_request data_arg size_arg =
     (case effective_size data_arg size_arg of
        None \<Rightarrow> True
      | Some n \<Rightarrow> (case data_arg of None \<Rightarrow> False | Some d \<Rightarrow> n \<noteq> int (length d)) \<or> n \<le> 0)"

text \<open>
  A free range fits a request when it is long enough and its \<^verbatim>\<open>begin\<close> passes the
  placement predicate.
\<close>

definition fits :: "int \<Rightarrow> (int \<Rightarrow> bool) option \<Rightarrow> int \<times> int \<Rightarrow> bool" where
  "fits sz can_write_to r = (case r of (rbegin, rend) \<Rightarrow> sz \<le> rend - rbegin + 1 \<and> can_write can_write_to rbegin)"

text \<open>Allocator states used as examples.\<close>

definition first_fit_example :: ablock where
  "first_fit_example =
     \<lparr>data = replicate 15 0, size_b = 15, unallocated_ranges = [(0, 1), (4, 10), (12, 14)]\<rparr>"

definition spanning_example :: ablock where
  "spanning_example = \<lparr>data = replicate 11 0, size_b = 11, unallocated_ranges = [(0, 5)]\<rparr>"

text \<open>
  What one turn of the loop of \<^verbatim>\<open>_detect_type\<close> finds for an entry \<^verbatim>\<open>d\<close>. \<open>no_match\<close>:
  every \<^verbatim>\<open>try\<close> block of the turn ends without a \<^verbatim>\<open>return\<close>, so the loop goes on to the
  next entry. \<open>headered_match\<close>: the platform is \<^verbatim>\<open>SNES\<close>, the two unheadered variants
  do not match, and the headered HiROM variant matches or, when it does not, the headered
  LoROM variant matches.
\<close>

definition no_match :: "rom_type_entry \<Rightarrow> 'a block_scheme \<Rightarrow> bool" where
  "no_match d b =
     (if d_platform d = ''SNES'' then
        try_variant b 0xffdc 0xffde 0xffdd 0xffdf (d_offset d) (d_data d) = Inr False
        \<and> try_variant b 0x7fdc 0x7fde 0x7fdd 0x7fdf (d_offset d) (d_data d) = Inr False
        \<and> try_variant b 0x101dc 0x101de 0x101dd 0x101df (d_offset d + 0x200) (d_data d) = Inr False
        \<and> try_variant b 0x81dc 0x81de 0x81dd 0x81df (d_offset d + 0x200) (d_data d) = Inr False
      else try_signature b (d_offset d) (d_data d) = Inr False)"

definition headered_match :: "rom_type_entry \<Rightarrow> 'a block_scheme \<Rightarrow> bool" where
  "headered_match d b =
     (d_platform d = ''SNES''
      \<and> try_variant b 0xffdc 0xffde 0xffdd 0xffdf (d_offset d) (d_data d) = Inr False
      \<and> try_variant b 0x7fdc 0x7fde 0x7fdd 0x7fdf (d_offset d) (d_data d) = Inr False
      \<and> (try_variant b 0x101dc 0x101de 0x101dd 0x101df (d_offset d + 0x200) (d_data d) = Inr True
         \<or> (try_variant b 0x101dc 0x101de 0x101dd 0x101df (d_offset d + 0x200) (d_data d) = Inr False
            \<and> try_variant b 0x81dc 0x81de 0x81dd 0x81df (d_offset d + 0x200) (d_data d) = Inr True)))"

text \<open>
  A headered LoROM image: a header of \<open>0x200\<close> bytes, the signature \<open>[1, 2, 3]\<close> at
  offset 0 of the image proper, and the two complement pairs at \<open>0x81dc\<close> to \<open>0x81df\<close>.
\<close>

definition headered_lorom :: block where
  "headered_lorom = \<lparr>data = replicate 0x200 7 @ [1, 2, 3] @ replicate 0x7fd9 0 @ [0, 0, 255, 255],
                     size_b = 0x81e0\<rparr>"

definition lorom_entry :: rom_type_entry where
  "lorom_entry = \<lparr>d_offset = 0, d_data = [1, 2, 3], d_platform = ''SNES''\<rparr>"

text \<open>
  An Earthbound image of \<open>0x300000\<close> bytes, every byte 1.
\<close>

definition ones_rom :: rom where
  "ones_rom = \<lparr>data = replicate 0x300000 1, size_b = 0x300000, unallocated_ranges = [],
               rom_type = ''Earthbound''\<rparr>"

text \<open>
  The bytes \<^verbatim>\<open>expand(0x600000)\<close> leaves in an image that had \<open>0x300000\<close> bytes \<open>xs\<close>.
  \<open>patched\<close> is the buffer grown to \<open>0x600000\<close> bytes with the two control bytes
  written; \<open>expanded\<close> adds the loop's copy of the offsets \<open>0x8000\<close> to \<open>0xffff\<close> at
  \<open>0x408000\<close> to \<open>0x40ffff\<close>.
\<close>

definition patched :: "int list \<Rightarrow> int \<Rightarrow> int" where
  "patched xs k =
     (if k = 0xffd5 then 0x25 else if k = 0xffd7 then 0x0d
      else if k < 0x300000 then xs ! nat k else 0)"

definition expanded :: "int list \<Rightarrow> int \<Rightarrow> int" where
  "expanded xs k =
     (if 0x408000 \<le> k \<and> k < 0x410000 then patched xs (k - 0x400000) else patched xs k)"

text \<open>
  The invariant of the free ranges: every entry has \<^verbatim>\<open>begin \<le> end\<close>, the list is sorted
  ascending by \<^verbatim>\<open>begin\<close>, and of any two entries the earlier one ends more than \<open>gap\<close>
  before the later one begins. With \<open>gap = 1\<close> no two ranges touch or overlap; with
  \<open>gap = 0\<close> no two overlap, and they may touch.
\<close>

definition separated :: "int \<Rightarrow> (int \<times> int) list \<Rightarrow> bool" where
  "separated gap rs =
     (list_all (\<lambda>r. fst r \<le> snd r) rs
      \<and> sorted (map fst rs)
      \<and> sorted_wrt (\<lambda>r r'. snd r + gap < fst r') rs)"

text \<open>
  Further allocator states used as examples: one free range, and two free ranges that
  touch.
\<close>

definition one_free :: ablock where
  "one_free = \<lparr>data = replicate 11 0, size_b = 11, unallocated_ranges = [(0, 10)]\<rparr>"

definition touching_free :: ablock where
  "touching_free = \<lparr>data = replicate 11 0, size_b = 11, unallocated_ranges = [(0, 5), (6, 10)]\<rparr>"

text \<open>
  A free entry \<open>a\<close> covers a range \<open>r\<close> when \<open>r\<close> lies wholly within it: the test of
  \<^verbatim>\<open>is_unallocated\<close>.
\<close>

definition covers :: "int \<times> int \<Rightarrow> int \<times> int \<Rightarrow> bool" where
  "covers r a = (fst a \<le> fst r \<and> snd r \<le> snd a)"

section \<open>Single bytes\<close>

lemma setitem_in_bounds:
  assumes "size_b b = int (length (data b))" "0 \<le> key" "key < size_b b" "is_byte item"
  shows "setitem key item b = (Inr (), b\<lparr>data := (data b)[nat key := item]\<rparr>)"
  using assms by (simp add: setitem_def array_set_def array_index_def is_byte_def Let_def)

lemma getitem_in_bounds:
  assumes "size_b b = int (length (data b))" "0 \<le> key" "key < size_b b"
  shows "getitem b key = Inr (data b ! nat key)"
  using assms by (simp add: getitem_def array_get_def array_index_def Let_def)

text \<open>
  What the integer branches do check: an offset at or above \<^verbatim>\<open>size\<close> raises
  \<^verbatim>\<open>OutOfBoundsError\<close>, and no other offset does.
\<close>

lemma getitem_out_of_bounds_iff:
  "getitem b key = Inl OutOfBoundsError \<longleftrightarrow> key \<ge> size_b b"
  by (simp add: getitem_def array_get_def array_index_def Let_def)

lemma setitem_out_of_bounds_iff:
  "is_byte item \<Longrightarrow> fst (setitem key item b) = Inl OutOfBoundsError \<longleftrightarrow> key \<ge> size_b b"
  by (simp add: setitem_def array_set_def array_index_def Let_def is_byte_def)

text \<open>
  C6. The claim says that a single-byte read or write fails with \<^verbatim>\<open>OutOfBoundsError\<close>
  exactly when the offset is outside \<open>[0, size)\<close>, a negative offset included. The
  integer branches of \<^verbatim>\<open>__getitem__\<close> and \<^verbatim>\<open>__setitem__\<close> test only
  \<^verbatim>\<open>key >= self.size\<close>, so in a block of three bytes the offset \<open>-1\<close> reads and
  overwrites the last byte, and the offset \<open>-4\<close> raises \<^verbatim>\<open>IndexError\<close>.
\<close>

theorem getitem_setitem_negative_offset:
  "getitem three_bytes (- 1) = Inr 30
   \<and> setitem (- 1) 7 three_bytes = (Inr (), \<lparr>data = [10, 20, 7], size_b = 3\<rparr>)
   \<and> getitem three_bytes (- 4) = Inl IndexError"
  by (simp add: three_bytes_def getitem_def setitem_def array_get_def array_set_def
      array_index_def Let_def)

section \<open>Multi-byte integers\<close>

lemma length_le_bytes [simp]: "length (le_bytes v n) = n"
  by (induction n arbitrary: v) auto

lemma and_255: "(v::int) AND 255 = v mod 256"
proof -
  have "v AND mask 8 = v mod 2 ^ 8"
    by (simp only: take_bit_eq_mask [symmetric] take_bit_eq_mod)
  then show ?thesis by (simp add: mask_eq_exp_minus_1)
qed

lemma le_bytes_is_byte: "list_all is_byte (le_bytes v n)"
  by (induction n arbitrary: v) (auto simp: is_byte_def and_255)

lemma le_value_le_bytes: "le_value (le_bytes v n) = v mod 2 ^ (8 * n)"
proof (induction n arbitrary: v)
  case 0 show ?case by simp
next
  case (Suc n)
  have "v mod (256 * 2 ^ (8 * n)) = 256 * (v div 256 mod 2 ^ (8 * n)) + v mod 256"
    using zmod_zmult2_eq[of "2 ^ (8 * n)" v 256] by simp
  then show ?case using Suc by (simp add: and_255 drop_bit_eq_div power_add)
qed

lemma shift_or_byte: "is_byte y \<Longrightarrow> push_bit 8 x OR y = y + 256 * (x::int)"
proof -
  assume "is_byte y"
  then have y: "take_bit 8 y = y" by (simp add: is_byte_def take_bit_eq_mod)
  have "concat_bit 8 y x = take_bit 8 y + push_bit 8 x" by (rule concat_bit_eq)
  then show ?thesis by (simp add: concat_bit_def y push_bit_eq_mult or.commute)
qed

lemma foldl_rev_le_value:
  "list_all is_byte bs \<Longrightarrow> foldl (\<lambda>x y. push_bit 8 x OR y) 0 (rev bs) = le_value bs"
  by (induction bs) (auto simp: shift_or_byte)

lemma reduce_rev_le_value:
  assumes "list_all is_byte bs" "bs \<noteq> []"
  shows "reduce (\<lambda>x y. push_bit 8 x OR y) (rev bs) = Inr (le_value bs)"
proof -
  from assms(2) obtain x rest where r: "rev bs = x # rest" by (cases "rev bs") auto
  have "foldl (\<lambda>x y. push_bit 8 x OR y) 0 (x # rest) = le_value bs"
    using foldl_rev_le_value[OF assms(1)] r by simp
  then show ?thesis by (simp add: reduce_def r)
qed

text \<open>
  The loop of \<^verbatim>\<open>write_multi\<close>, given an \<^verbatim>\<open>int\<close> key and an \<^verbatim>\<open>int\<close> item, stores the
  \<open>n\<close> low bytes of the item at \<open>key\<close>, least significant first.
\<close>

lemma write_multi_loop_bytes:
  assumes "size_b b = int (length (data b))" "0 \<le> key" "key + int n \<le> size_b b"
    and "size_b b \<le> maxint"
  shows "write_multi_loop maxint (PyInt key) (PyInt item) (int n) b =
           (Inr (), b\<lparr>data := take (nat key) (data b) @ le_bytes item n
                                  @ drop (nat key + n) (data b)\<rparr>)"
  using assms
proof (induction n arbitrary: key item b)
  case 0
  then show ?case by simp
next
  case (Suc n)
  let ?v = "item AND 255"
  let ?b = "b\<lparr>data := (data b)[nat key := ?v]\<rparr>"
  have byte: "is_byte ?v" by (simp add: is_byte_def and_255)
  have s: "setitem key ?v b = (Inr (), ?b)"
    using Suc.prems byte by (intro setitem_in_bounds) auto
  have next_key: "py_add maxint (PyInt key) 1 = PyInt (key + 1)"
    using Suc.prems by simp
  have ih: "write_multi_loop maxint (PyInt (key + 1)) (PyInt (drop_bit 8 item)) (int n) ?b =
      (Inr (), ?b\<lparr>data := take (nat (key + 1)) (data ?b) @ le_bytes (drop_bit 8 item) n
          @ drop (nat (key + 1) + n) (data ?b)\<rparr>)"
    using Suc.prems by (intro Suc.IH) auto
  have k: "nat key < length (data b)" using Suc.prems by auto
  have d: "take (nat (key + 1)) (data ?b) @ le_bytes (drop_bit 8 item) n
          @ drop (nat (key + 1) + n) (data ?b)
        = take (nat key) (data b) @ le_bytes item (Suc n) @ drop (nat key + Suc n) (data b)"
    using k Suc.prems(2) by (simp add: nat_add_distrib take_Suc_conv_app_nth)
  have "write_multi_loop maxint (PyInt key) (PyInt item) (int (Suc n)) b
      = write_multi_loop maxint (PyInt (key + 1)) (PyInt (drop_bit 8 item)) (int n) ?b"
    using s next_key by (subst write_multi_loop.simps) simp
  then show ?case using ih d by simp
qed

lemma nth_le_bytes: "i < n \<Longrightarrow> le_bytes v n ! i = v div 2 ^ (8 * i) mod 256"
proof (induction n arbitrary: v i)
  case 0
  then show ?case by simp
next
  case (Suc n)
  show ?case
  proof (cases i)
    case 0
    then show ?thesis by (simp add: and_255)
  next
    case (Suc j)
    have "v div 256 div 2 ^ (8 * j) = v div (256 * 2 ^ (8 * j))"
      by (simp add: zdiv_zmult2_eq)
    with Suc Suc.prems Suc.IH[of j "drop_bit 8 v"] show ?thesis
      by (simp add: drop_bit_eq_div power_add)
  qed
qed

text \<open>
  A \<^verbatim>\<open>long\<close> item never reaches the array: with a width above 0 the first
  \<^verbatim>\<open>self[key] = item & 0xff\<close> raises \<^verbatim>\<open>TypeError\<close>, whatever the value.
\<close>

lemma write_multi_long_item:
  assumes "0 < w" "0 \<le> py_val key" "py_val key + w \<le> size_b b"
  shows "write_multi maxint key (PyLong v) w b = (Inl TypeError, b)"
proof -
  have "setitem_py key (py_and (PyLong v) 0xff) b = (Inl TypeError, b)"
    by (cases key) simp_all
  then have "write_multi_loop maxint key (PyLong v) w b = (Inl TypeError, b)"
    using assms(1) by (subst write_multi_loop.simps) simp
  then show ?thesis using assms by (simp add: write_multi_def)
qed

text \<open>
  C8, with the hypothesis it needs. Let the block's \<^verbatim>\<open>size\<close> be the length of its array
  (an \<^verbatim>\<open>int\<close>, so at most \<open>maxint\<close>). For an offset \<open>key\<close> in \<open>[0, size)\<close> and a value
  \<open>v\<close> that are both of type \<^verbatim>\<open>int\<close> (so \<open>v\<close> lies in \<open>[-maxint - 1, maxint]\<close>), and a
  width \<open>w \<ge> 0\<close> with \<open>key + w \<le> size\<close>, \<^verbatim>\<open>write_multi(key, v, w)\<close> returns normally; on
  the block it leaves, the byte at \<open>key + i\<close> is byte \<open>i\<close> of \<open>v\<close>, least significant
  first, for every \<open>i\<close> below \<open>w\<close>, and \<^verbatim>\<open>read_multi(key, w)\<close> returns
  \<open>v mod 2 ^ (8 * w)\<close>.
\<close>

theorem write_multi_read_multi:
  assumes "size_b b = int (length (data b))" and "size_b b \<le> maxint"
    and "0 \<le> key" and "key < size_b b" and "0 \<le> w" and "key + w \<le> size_b b"
    and "- maxint - 1 \<le> v" and "v \<le> maxint"
  shows "fst (write_multi maxint (PyInt key) (PyInt v) w b) = Inr ()
       \<and> read_multi (snd (write_multi maxint (PyInt key) (PyInt v) w b)) key w
            = Inr (v mod 2 ^ (8 * nat w))
       \<and> (\<forall>i. 0 \<le> i \<and> i < w \<longrightarrow>
             getitem (snd (write_multi maxint (PyInt key) (PyInt v) w b)) (key + i)
               = Inr (v div 2 ^ (8 * nat i) mod 256))"
proof (cases "w = 0")
  case True
  have "\<not> (0 \<le> i \<and> i < w)" for i using True by simp
  moreover have "fst (write_multi maxint (PyInt key) (PyInt v) w b) = Inr ()
       \<and> read_multi (snd (write_multi maxint (PyInt key) (PyInt v) w b)) key w
            = Inr (v mod 2 ^ (8 * nat w))"
    using True assms by (simp add: write_multi_def read_multi_def)
  ultimately show ?thesis by blast
next
  case False
  define n where "n = nat w"
  have w: "w = int n" and n: "n \<noteq> 0" using assms(5) False by (auto simp: n_def)
  let ?bs = "le_bytes v n"
  let ?xs = "take (nat key) (data b) @ ?bs @ drop (nat key + n) (data b)"
  let ?b' = "b\<lparr>data := ?xs\<rparr>"
  have wr: "write_multi maxint (PyInt key) (PyInt v) w b = (Inr (), ?b')"
    using assms False write_multi_loop_bytes[of b key n maxint v]
    by (simp add: write_multi_def w)
  have len: "length (take (nat key) (data b)) = nat key" using assms by auto
  have sl: "array_slice ?xs key (key + w) = ?bs"
    using assms(3) len by (simp add: array_slice_def w nat_add_distrib)
  have ne: "?bs \<noteq> []" using n by (cases n) auto
  have rd: "read_multi ?b' key w = Inr (le_value ?bs)"
    using assms False sl reduce_rev_le_value[OF le_bytes_is_byte ne]
    by (simp add: read_multi_def getitem_slice_def from_array_def to_list_def)
  have lx: "int (length ?xs) = size_b b"
    using assms w by auto
  have rb: "getitem ?b' (key + i) = Inr (v div 2 ^ (8 * nat i) mod 256)"
    if i: "0 \<le> i" "i < w" for i
  proof -
    have "getitem ?b' (key + i) = Inr (data ?b' ! nat (key + i))"
    proof (rule getitem_in_bounds)
      show "size_b ?b' = int (length (data ?b'))" using lx by simp
      show "0 \<le> key + i" using assms(3) i by simp
      show "key + i < size_b ?b'" using assms(6) i by simp
    qed
    moreover have "nat (key + i) = nat key + nat i"
      using assms(3) i by (simp add: nat_add_distrib)
    moreover have "?xs ! (nat key + nat i) = (?bs @ drop (nat key + n) (data b)) ! nat i"
      using len by (simp add: nth_append)
    moreover have "nat i < n" using i w by simp
    then have "(?bs @ drop (nat key + n) (data b)) ! nat i = ?bs ! nat i"
      by (simp add: nth_append)
    moreover have "?bs ! nat i = v div 2 ^ (8 * nat i) mod 256"
      using \<open>nat i < n\<close> by (rule nth_le_bytes)
    ultimately show ?thesis by simp
  qed
  have 1: "fst (write_multi maxint (PyInt key) (PyInt v) w b) = Inr ()"
    by (simp add: wr)
  have 2: "read_multi (snd (write_multi maxint (PyInt key) (PyInt v) w b)) key w
            = Inr (v mod 2 ^ (8 * nat w))"
  proof -
    have "read_multi ?b' key w = Inr (v mod 2 ^ (8 * n))"
      using rd by (simp add: le_value_le_bytes)
    then show ?thesis unfolding wr n_def by simp
  qed
  have 3: "getitem (snd (write_multi maxint (PyInt key) (PyInt v) w b)) (key + i)
               = Inr (v div 2 ^ (8 * nat i) mod 256)" if "0 \<le> i" "i < w" for i
    using rb[OF that] by (simp add: wr)
  from 1 2 3 show ?thesis by blast
qed

theorem write_multi_read_multi_witness:
  "fst (write_multi (2 ^ 63 - 1) (PyInt 1) (PyInt 0x12345) 2 three_bytes) = Inr ()
   \<and> read_multi (snd (write_multi (2 ^ 63 - 1) (PyInt 1) (PyInt 0x12345) 2 three_bytes)) 1 2
        = Inr 0x2345
   \<and> getitem (snd (write_multi (2 ^ 63 - 1) (PyInt 1) (PyInt 0x12345) 2 three_bytes)) 1 = Inr 0x45
   \<and> getitem (snd (write_multi (2 ^ 63 - 1) (PyInt 1) (PyInt 0x12345) 2 three_bytes)) 2 = Inr 0x23"
proof -
  let ?b' = "snd (write_multi (2 ^ 63 - 1) (PyInt 1) (PyInt 0x12345) 2 three_bytes)"
  from write_multi_read_multi[of three_bytes "2 ^ 63 - 1" 1 2 "0x12345"]
  have a: "fst (write_multi (2 ^ 63 - 1) (PyInt 1) (PyInt 0x12345) 2 three_bytes) = Inr ()"
      "read_multi ?b' 1 2 = Inr 0x2345"
    and b: "\<And>i. 0 \<le> i \<Longrightarrow> i < 2 \<Longrightarrow> getitem ?b' (1 + i) = Inr (0x12345 div 2 ^ (8 * nat i) mod 256)"
    by (simp_all add: three_bytes_def)
  from b[of 0] b[of 1] a show ?thesis by simp
qed

text \<open>
  C8, as the claim states it, is for every integer \<open>v \<ge> 0\<close>. A value above
  \<^verbatim>\<open>sys.maxint\<close> is a \<^verbatim>\<open>long\<close>: for \<open>v = 2 ^ 64 + 0x1234\<close>, offset 0 and width 2 in a
  block of three bytes, \<^verbatim>\<open>item & 0xff\<close> is a \<^verbatim>\<open>long\<close>, \<^verbatim>\<open>__setitem__\<close> raises
  \<^verbatim>\<open>TypeError\<close> and the block is unchanged, so no \<^verbatim>\<open>read_multi\<close> follows and the bytes
  \<open>0x34\<close>, \<open>0x12\<close> are not there.
\<close>

theorem write_multi_long_value:
  "fst (write_multi (2 ^ 63 - 1) (PyInt 0) (PyLong (2 ^ 64 + 0x1234)) 2 three_bytes) = Inl TypeError
   \<and> snd (write_multi (2 ^ 63 - 1) (PyInt 0) (PyLong (2 ^ 64 + 0x1234)) 2 three_bytes) = three_bytes
   \<and> read_multi three_bytes 0 2 = Inr 0x140a
   \<and> (2 ^ 64 + 0x1234) mod 2 ^ (8 * nat 2) = (0x1234 :: int)"
  by (simp add: write_multi_def three_bytes_def read_multi_def getitem_slice_def from_array_def
      to_list_def array_slice_def reduce_def)

section \<open>allocate\<close>

lemma allocate_search_None_iff:
  "allocate_search sz p rs = None \<longleftrightarrow> \<not> list_ex (fits sz p) rs"
  by (induction rs) (auto simp: fits_def split: if_splits)

lemma allocate_search_first:
  assumes "\<not> list_ex (fits sz p) pre" "fits sz p (rbegin, rend)"
  shows "allocate_search sz p (pre @ (rbegin, rend) # post) =
           Some ((rbegin, rbegin + sz - 1),
                 pre @ (if rbegin + sz - 1 = rend then [] else [(rbegin + sz, rend)]) @ post)"
  using assms by (induction pre) (auto simp: fits_def)

lemma valid_request_size:
  assumes "\<not> invalid_request d s"
  shows "\<exists>n. effective_size d s = Some n \<and> 0 < n \<and> (\<forall>xs. d = Some xs \<longrightarrow> n = int (length xs))"
  using assms by (cases d; cases s) (auto simp: invalid_request_def effective_size_def)

lemma allocate_valid_request:
  assumes "\<not> invalid_request d s" "effective_size d s = Some n"
  shows "allocate d s p blk =
      (case allocate_search n p (unallocated_ranges blk) of
              None \<Rightarrow> (Inl NotEnoughUnallocatedSpaceError, blk)
            | Some (allocated_range, ranges') \<Rightarrow>
                (let blk' = blk\<lparr>unallocated_ranges := ranges'\<rparr> in
                 case d of
                   None \<Rightarrow> (Inr (fst allocated_range), blk')
                 | Some xs \<Rightarrow>
                    (case setitem_slice (fst allocated_range) (snd allocated_range + 1) xs blk' of
                       (Inl err, blk'') \<Rightarrow> (Inl err, blk'')
                     | (Inr u, blk'') \<Rightarrow> (Inr (fst allocated_range), blk''))))"
  using assms
  by (cases d; cases s) (auto simp: invalid_request_def effective_size_def allocate_def Let_def)

lemma allocate_invalid_request:
  "invalid_request d s \<Longrightarrow> allocate d s p blk = (Inl InvalidArgumentError, blk)"
  by (cases d; cases s) (auto simp: invalid_request_def effective_size_def allocate_def Let_def)

lemma setitem_slice_errors:
  assumes "0 < n" "int (length xs) = n"
  shows "fst (setitem_slice k (k + n - 1 + 1) xs blk) \<noteq> Inl InvalidArgumentError
       \<and> fst (setitem_slice k (k + n - 1 + 1) xs blk) \<noteq> Inl NotEnoughUnallocatedSpaceError"
  using assms by (auto simp: setitem_slice_def array_B_def)

lemma allocate_search_range:
  "allocate_search n p rs = Some ((a, c), rs') \<Longrightarrow> c = a + n - 1"
  by (induction rs arbitrary: rs') (auto split: if_splits)

lemma allocate_valid_outcome:
  assumes "\<not> invalid_request d s" "effective_size d s = Some n"
  shows "fst (allocate d s p blk) \<noteq> Inl InvalidArgumentError"
    and "fst (allocate d s p blk) = Inl NotEnoughUnallocatedSpaceError
           \<longleftrightarrow> allocate_search n p (unallocated_ranges blk) = None"
    and "allocate_search n p (unallocated_ranges blk) = None \<Longrightarrow> snd (allocate d s p blk) = blk"
proof -
  note a = allocate_valid_request[OF assms, of p blk]
  from valid_request_size[OF assms(1)] assms(2)
  have n: "0 < n" and len: "\<And>xs. d = Some xs \<Longrightarrow> n = int (length xs)" by auto
  have "fst (allocate d s p blk) \<noteq> Inl InvalidArgumentError
      \<and> (fst (allocate d s p blk) = Inl NotEnoughUnallocatedSpaceError
           \<longleftrightarrow> allocate_search n p (unallocated_ranges blk) = None)"
  proof (cases "allocate_search n p (unallocated_ranges blk)")
    case None
    then show ?thesis by (simp add: a)
  next
    case (Some res)
    obtain rb re rs' where res: "res = ((rb, re), rs')" by (cases res) auto
    have re: "re = rb + n - 1" using Some res allocate_search_range by blast
    show ?thesis
    proof (cases d)
      case None
      with a Some show ?thesis by (simp add: res)
    next
      case d: (Some xs)
      have "fst (setitem_slice rb (rb + n - 1 + 1) xs (blk\<lparr>unallocated_ranges := rs'\<rparr>))
              \<noteq> Inl InvalidArgumentError
          \<and> fst (setitem_slice rb (rb + n - 1 + 1) xs (blk\<lparr>unallocated_ranges := rs'\<rparr>))
              \<noteq> Inl NotEnoughUnallocatedSpaceError"
        using setitem_slice_errors[OF n, of xs rb] len[OF d] by simp
      with a Some d show ?thesis
        by (auto simp: res re split: prod.splits sum.splits)
    qed
  qed
  then show "fst (allocate d s p blk) \<noteq> Inl InvalidArgumentError"
    and "fst (allocate d s p blk) = Inl NotEnoughUnallocatedSpaceError
           \<longleftrightarrow> allocate_search n p (unallocated_ranges blk) = None"
    by auto
  show "allocate_search n p (unallocated_ranges blk) = None \<Longrightarrow> snd (allocate d s p blk) = blk"
    by (simp add: a)
qed

text \<open>
  C7. \<^verbatim>\<open>allocate\<close> raises \<^verbatim>\<open>InvalidArgumentError\<close> exactly when the request is invalid:
  neither \<^verbatim>\<open>data\<close> nor \<^verbatim>\<open>size\<close> is given, or both are given and \<^verbatim>\<open>size\<close> differs from
  \<^verbatim>\<open>len(data)\<close>, or the effective size is at most 0. For a valid request of effective
  size \<open>n\<close> it raises \<^verbatim>\<open>NotEnoughUnallocatedSpaceError\<close> exactly when no free range
  fits: none has length at least \<open>n\<close> and a \<^verbatim>\<open>begin\<close> that passes the placement
  predicate.
\<close>

theorem allocate_errors:
  "(fst (allocate d s p blk) = Inl InvalidArgumentError \<longleftrightarrow> invalid_request d s)
   \<and> (\<forall>n. \<not> invalid_request d s \<and> effective_size d s = Some n \<longrightarrow>
         (fst (allocate d s p blk) = Inl NotEnoughUnallocatedSpaceError
            \<longleftrightarrow> \<not> list_ex (fits n p) (unallocated_ranges blk)))"
  using allocate_invalid_request[of d s p blk] allocate_valid_outcome(1,2)[of d s _ p blk]
    valid_request_size[of d s]
  by (auto simp: allocate_search_None_iff)

theorem allocate_errors_witness:
  "fst (allocate None (Some 8) None first_fit_example) = Inl NotEnoughUnallocatedSpaceError
   \<and> fst (allocate (Some [1, 2]) (Some 3) None first_fit_example) = Inl InvalidArgumentError
   \<and> fst (allocate None (Some 3) None first_fit_example) = Inr 4"
  using allocate_errors[of None "Some 8" None first_fit_example]
    allocate_errors[of "Some [1, 2]" "Some 3" None first_fit_example]
  by (simp add: first_fit_example_def invalid_request_def effective_size_def fits_def
      can_write_def allocate_def)

text \<open>
  C10. When \<^verbatim>\<open>allocate\<close> raises \<^verbatim>\<open>InvalidArgumentError\<close> or
  \<^verbatim>\<open>NotEnoughUnallocatedSpaceError\<close>, it leaves the block as it was: the free ranges and
  the bytes are unchanged. \<^verbatim>\<open>mark_allocated\<close> is different: with the free ranges
  \<open>[(0, 5)]\<close>, marking \<open>(3, 8)\<close> shrinks the entry to \<open>(0, 2)\<close> and then raises
  \<^verbatim>\<open>CouldNotAllocateError\<close>.
\<close>

theorem allocate_failure_keeps_state:
  "(fst (allocate d s p blk) = Inl InvalidArgumentError
      \<or> fst (allocate d s p blk) = Inl NotEnoughUnallocatedSpaceError
    \<longrightarrow> snd (allocate d s p blk) = blk)
   \<and> fst (mark_allocated (3, 8) spanning_example) = Inl CouldNotAllocateError
   \<and> unallocated_ranges (snd (mark_allocated (3, 8) spanning_example)) = [(0, 2)]
   \<and> unallocated_ranges spanning_example = [(0, 5)]"
proof -
  have "snd (allocate d s p blk) = blk"
    if "fst (allocate d s p blk) = Inl InvalidArgumentError
      \<or> fst (allocate d s p blk) = Inl NotEnoughUnallocatedSpaceError"
  proof (cases "invalid_request d s")
    case True
    then show ?thesis by (simp add: allocate_invalid_request)
  next
    case False
    then obtain n where n: "effective_size d s = Some n" using valid_request_size by blast
    from that allocate_valid_outcome(1,2)[OF False n, of p blk]
    have "allocate_search n p (unallocated_ranges blk) = None" by auto
    then show ?thesis by (rule allocate_valid_outcome(3)[OF False n])
  qed
  moreover have "mark_allocated (3, 8) spanning_example
      = (Inl CouldNotAllocateError, spanning_example\<lparr>unallocated_ranges := [(0, 2)]\<rparr>)"
    by (simp add: mark_allocated.simps spanning_example_def check_range_validity_def
        mark_test_def)
  ultimately show ?thesis by (simp add: spanning_example_def)
qed

theorem allocate_failure_keeps_state_witness:
  "fst (allocate None None None first_fit_example) = Inl InvalidArgumentError
   \<and> snd (allocate None None None first_fit_example) = first_fit_example"
  using allocate_failure_keeps_state[of None None None first_fit_example]
  by (simp add: allocate_def)

lemma setitem_slice_ok:
  assumes "0 < n" "int (length xs) = n" "0 \<le> k" "k + n \<le> size_b blk" "list_all is_byte xs"
  shows "fst (setitem_slice k (k + n - 1 + 1) xs blk) = Inr ()
       \<and> unallocated_ranges (snd (setitem_slice k (k + n - 1 + 1) xs blk)) = unallocated_ranges blk"
  using assms by (auto simp: setitem_slice_def array_B_def)

lemma setitem_slice_ranges:
  "unallocated_ranges (snd (setitem_slice k j xs blk)) = unallocated_ranges blk"
  by (auto simp: setitem_slice_def split: sum.splits)

lemma allocate_found:
  assumes valid: "\<not> invalid_request d s" and size: "effective_size d s = Some n"
    and search: "allocate_search n p (unallocated_ranges blk) = Some ((rb, re), rs')"
  shows "unallocated_ranges (snd (allocate d s p blk)) = rs'"
    and "d = None \<or> (0 \<le> rb \<and> rb + n \<le> size_b blk \<and> list_all is_byte (the d))
           \<Longrightarrow> fst (allocate d s p blk) = Inr rb"
proof -
  let ?blk' = "blk\<lparr>unallocated_ranges := rs'\<rparr>"
  from valid_request_size[OF valid] size
  have n: "0 < n" and len: "\<And>xs. d = Some xs \<Longrightarrow> int (length xs) = n" by auto
  have re: "re = rb + n - 1" using search by (rule allocate_search_range)
  note a = allocate_valid_request[OF valid size, of p blk]
  show "unallocated_ranges (snd (allocate d s p blk)) = rs'"
  proof (cases d)
    case None
    with a search show ?thesis by simp
  next
    case (Some xs)
    have "unallocated_ranges (snd (setitem_slice rb (re + 1) xs ?blk')) = rs'"
      by (simp only: setitem_slice_ranges) simp
    with a search Some show ?thesis by (auto split: prod.splits sum.splits)
  qed
  show "fst (allocate d s p blk) = Inr rb"
    if "d = None \<or> (0 \<le> rb \<and> rb + n \<le> size_b blk \<and> list_all is_byte (the d))"
  proof (cases d)
    case None
    with a search show ?thesis by simp
  next
    case (Some xs)
    with that have "0 \<le> rb" "rb + n \<le> size_b ?blk'" "list_all is_byte xs" by auto
    from setitem_slice_ok[OF n len[OF Some] this]
    have "fst (setitem_slice rb (re + 1) xs ?blk') = Inr ()" by (simp add: re)
    with a search Some show ?thesis by (auto split: prod.splits sum.splits)
  qed
qed

text \<open>
  C1. For a valid request of effective size \<open>n\<close> and free ranges sorted by \<^verbatim>\<open>begin\<close>,
  let \<open>(rbegin, rend)\<close> be the first entry of the list that fits, no entry before it
  fitting. Then \<^verbatim>\<open>allocate\<close> shrinks this entry from the front to
  \<open>(rbegin + n, rend)\<close>, or removes it when \<open>rbegin + n - 1 = rend\<close>, and leaves every
  other entry as it was; it returns \<open>rbegin\<close> (when \<^verbatim>\<open>data\<close> is given: provided the
  range lies in the buffer and the data are bytes, so that the write succeeds); and no
  entry that fits has a smaller \<^verbatim>\<open>begin\<close>, so a later range, however tight, is never
  chosen.
\<close>

theorem allocate_first_fit:
  assumes valid: "\<not> invalid_request d s" and size: "effective_size d s = Some n"
    and ranges: "unallocated_ranges blk = pre @ (rbegin, rend) # post"
    and before: "\<not> list_ex (fits n p) pre"
    and here: "fits n p (rbegin, rend)"
    and sorted: "sorted (map fst (unallocated_ranges blk))"
  shows "unallocated_ranges (snd (allocate d s p blk)) =
           pre @ (if rbegin + n - 1 = rend then [] else [(rbegin + n, rend)]) @ post
       \<and> (d = None \<or> (0 \<le> rbegin \<and> rbegin + n \<le> size_b blk \<and> list_all is_byte (the d))
            \<longrightarrow> fst (allocate d s p blk) = Inr rbegin)
       \<and> (\<forall>r \<in> set (unallocated_ranges blk). fits n p r \<longrightarrow> rbegin \<le> fst r)"
proof -
  have search: "allocate_search n p (unallocated_ranges blk) =
      Some ((rbegin, rbegin + n - 1),
            pre @ (if rbegin + n - 1 = rend then [] else [(rbegin + n, rend)]) @ post)"
    unfolding ranges by (rule allocate_search_first[OF before here])
  note found = allocate_found[OF valid size search]
  have "rbegin \<le> fst r" if r: "r \<in> set (unallocated_ranges blk)" "fits n p r" for r
  proof -
    from before r(2) have "r \<notin> set pre" by (auto simp: list_ex_iff)
    with r(1) have "r = (rbegin, rend) \<or> r \<in> set post" by (auto simp: ranges)
    moreover have "\<forall>x \<in> set post. rbegin \<le> fst x"
      using sorted by (auto simp: ranges sorted_append)
    ultimately show ?thesis by auto
  qed
  with found show ?thesis by blast
qed

theorem allocate_first_fit_witness:
  "fst (allocate None (Some 3) None first_fit_example) = Inr 4
   \<and> unallocated_ranges (snd (allocate None (Some 3) None first_fit_example))
       = [(0, 1), (7, 10), (12, 14)]"
  using allocate_first_fit[of None "Some 3" 3 first_fit_example "[(0, 1)]" 4 10 "[(12, 14)]" None]
  by (simp add: first_fit_example_def invalid_request_def effective_size_def fits_def
      can_write_def)

section \<open>Format detection\<close>

lemma detect_type_no_match:
  "no_match d b \<Longrightarrow> detect_type ((type_name, d) # rest) b = detect_type rest b"
  by (simp add: no_match_def split: if_splits)

lemma detect_type_headered_match:
  "headered_match d b \<Longrightarrow> detect_type ((type_name, d) # rest) b = (Inr type_name, remove_header b)"
  by (auto simp: headered_match_def)

lemma detect_type_skip:
  "list_all (\<lambda>(name, d). no_match d b) pre \<Longrightarrow> detect_type (pre @ rest) b = detect_type rest b"
  by (induction pre) (auto simp: detect_type_no_match simp del: detect_type.simps)

lemma try_variant_size:
  assumes "try_variant b k1 k2 k3 k4 start d = Inr True"
  shows "k1 < size_b b"
  using assms
  by (auto simp: try_variant_def variant_test_def complement_pair_def getitem_def
      split: sum.splits if_splits)

lemma headered_match_size: "headered_match d b \<Longrightarrow> 0x81dc < size_b b"
  by (auto simp: headered_match_def dest: try_variant_size)

text \<open>
  C9. Let the block's \<^verbatim>\<open>size\<close> be the length of its array. When the entries tried first
  do not match and the next entry matches in a headered variant, \<^verbatim>\<open>_detect_type\<close> returns
  that entry's name and strips the header: \<^verbatim>\<open>size\<close> decreases by exactly \<open>0x200\<close>, the
  array loses its first \<open>0x200\<close> bytes (and has the new \<^verbatim>\<open>size\<close> as its length), and
  the byte at every new offset \<open>i\<close> is the original byte at offset \<open>i + 0x200\<close>.
\<close>

theorem detect_type_strips_header:
  assumes ok: "size_b b = int (length (data b))"
    and skip: "list_all (\<lambda>(name, d). no_match d b) pre"
    and hit: "headered_match d b"
  shows "fst (detect_type (pre @ (type_name, d) # post) b) = Inr type_name
       \<and> size_b (snd (detect_type (pre @ (type_name, d) # post) b)) = size_b b - 0x200
       \<and> data (snd (detect_type (pre @ (type_name, d) # post) b)) = drop 0x200 (data b)
       \<and> int (length (data (snd (detect_type (pre @ (type_name, d) # post) b)))) = size_b b - 0x200
       \<and> (\<forall>i. 0 \<le> i \<and> i < size_b b - 0x200 \<longrightarrow>
             getitem (snd (detect_type (pre @ (type_name, d) # post) b)) i = getitem b (i + 0x200)
             \<and> getitem b (i + 0x200) = Inr (data b ! nat (i + 0x200)))"
proof -
  have dt: "detect_type (pre @ (type_name, d) # post) b = (Inr type_name, remove_header b)"
    using detect_type_skip[OF skip] detect_type_headered_match[OF hit] by simp
  have sz: "0x200 \<le> size_b b" using headered_match_size[OF hit] by simp
  have len: "int (length (data (remove_header b))) = size_b b - 0x200"
    using ok sz by (simp add: remove_header_def)
  have rd: "getitem (remove_header b) i = getitem b (i + 0x200)
          \<and> getitem b (i + 0x200) = Inr (data b ! nat (i + 0x200))"
    if "0 \<le> i" "i < size_b b - 0x200" for i
  proof -
    have 1: "getitem b (i + 0x200) = Inr (data b ! nat (i + 0x200))"
      using that ok by (intro getitem_in_bounds) auto
    have "getitem (remove_header b) i = Inr (data (remove_header b) ! nat i)"
      using that len by (intro getitem_in_bounds) (auto simp: remove_header_def)
    also have "data (remove_header b) ! nat i = data b ! nat (i + 0x200)"
      using that ok by (simp add: remove_header_def nat_add_distrib add.commute)
    finally show ?thesis using 1 by simp
  qed
  show ?thesis using len rd by (simp add: dt) (simp add: remove_header_def)
qed

theorem detect_type_strips_header_witness:
  "fst (detect_type [(''Lo'', lorom_entry)] headered_lorom) = Inr ''Lo''
   \<and> size_b (snd (detect_type [(''Lo'', lorom_entry)] headered_lorom)) = 0x7fe0
   \<and> getitem (snd (detect_type [(''Lo'', lorom_entry)] headered_lorom)) 1 = Inr 2"
proof -
  have u: "try_variant headered_lorom 0xffdc 0xffde 0xffdd 0xffdf 0 [1, 2, 3] = Inr False"
    by (simp add: try_variant_def variant_test_def complement_pair_def getitem_def
        headered_lorom_def)
  have v: "try_variant headered_lorom 0x7fdc 0x7fde 0x7fdd 0x7fdf 0 [1, 2, 3] = Inr False"
    by (simp add: try_variant_def variant_test_def complement_pair_def getitem_def
        array_get_def array_index_def headered_lorom_def nth_append)
  have w: "try_variant headered_lorom 0x101dc 0x101de 0x101dd 0x101df 0x200 [1, 2, 3] = Inr False"
    by (simp add: try_variant_def variant_test_def complement_pair_def getitem_def
        headered_lorom_def)
  have x: "try_variant headered_lorom 0x81dc 0x81de 0x81dd 0x81df 0x200 [1, 2, 3] = Inr True"
    by (simp add: try_variant_def variant_test_def complement_pair_def getitem_def
        array_get_def array_index_def headered_lorom_def nth_append signature_at_def
        getitem_slice_def from_array_def to_list_def array_slice_def)
  have h: "headered_match lorom_entry headered_lorom"
    using u v w x by (simp add: headered_match_def lorom_entry_def)
  have ok: "size_b headered_lorom = int (length (data headered_lorom))"
    by (simp add: headered_lorom_def)
  have g: "getitem headered_lorom 0x201 = Inr 2"
    by (simp add: getitem_def array_get_def array_index_def headered_lorom_def nth_append)
  from detect_type_strips_header[of headered_lorom "[]" lorom_entry "''Lo''" "[]"] ok h g
  show ?thesis by (simp add: headered_lorom_def)
qed

section \<open>Expansion\<close>

lemma list_all_is_byte_update:
  "list_all is_byte xs \<Longrightarrow> is_byte v \<Longrightarrow> list_all is_byte (xs[k := v])"
  by (auto simp: list_all_iff dest: set_update_subset_insert[THEN subsetD])

lemma list_all_is_byte_nth:
  "list_all is_byte xs \<Longrightarrow> k < length xs \<Longrightarrow> is_byte (xs ! k)"
  by (simp add: list_all_length)

lemma expand_copy_result:
  assumes "size_b b = int (length (data b))" and "list_all is_byte (data b)"
    and "\<forall>i \<in> set idx. 0 \<le> i \<and> 0x400000 + i < size_b b"
    and "\<forall>i \<in> set idx. \<forall>j \<in> set idx. i \<noteq> 0x400000 + j"
  shows "\<exists>xs. expand_copy idx b = (Inr (), b\<lparr>data := xs\<rparr>)
           \<and> length xs = length (data b) \<and> list_all is_byte xs
           \<and> (\<forall>k. 0 \<le> k \<and> k < size_b b \<longrightarrow>
                 xs ! nat k = (if k - 0x400000 \<in> set idx then data b ! nat (k - 0x400000)
                               else data b ! nat k))"
  using assms
proof (induction idx arbitrary: b)
  case Nil
  show ?case by (rule exI[of _ "data b"]) (simp add: Nil.prems)
next
  case (Cons i idx)
  let ?v = "data b ! nat i"
  let ?t = "nat (0x400000 + i)"
  let ?b1 = "b\<lparr>data := (data b)[?t := ?v]\<rparr>"
  from Cons.prems have i: "0 \<le> i" "0x400000 + i < size_b b" by auto
  have v: "is_byte ?v"
    using Cons.prems(1,2) i by (intro list_all_is_byte_nth) auto
  have g: "getitem b i = Inr ?v"
    using Cons.prems(1) i by (intro getitem_in_bounds) auto
  have s: "setitem (0x400000 + i) ?v b = (Inr (), ?b1)"
    using Cons.prems(1) i v by (intro setitem_in_bounds) auto
  have step: "expand_copy (i # idx) b = expand_copy idx ?b1"
    by (simp add: g s)
  have "\<exists>xs. expand_copy idx ?b1 = (Inr (), ?b1\<lparr>data := xs\<rparr>)
           \<and> length xs = length (data ?b1) \<and> list_all is_byte xs
           \<and> (\<forall>k. 0 \<le> k \<and> k < size_b ?b1 \<longrightarrow>
                 xs ! nat k = (if k - 0x400000 \<in> set idx then data ?b1 ! nat (k - 0x400000)
                               else data ?b1 ! nat k))"
    using Cons.prems v by (intro Cons.IH) (auto simp: list_all_is_byte_update)
  then obtain xs where xs: "expand_copy idx ?b1 = (Inr (), ?b1\<lparr>data := xs\<rparr>)"
    "length xs = length (data b)" "list_all is_byte xs"
    and nth: "\<And>k. 0 \<le> k \<Longrightarrow> k < size_b b \<Longrightarrow>
       xs ! nat k = (if k - 0x400000 \<in> set idx then (data b)[?t := ?v] ! nat (k - 0x400000)
                     else (data b)[?t := ?v] ! nat k)"
    by auto
  have "xs ! nat k = (if k - 0x400000 \<in> set (i # idx) then data b ! nat (k - 0x400000)
                       else data b ! nat k)"
    if k: "0 \<le> k" "k < size_b b" for k
  proof (cases "k - 0x400000 \<in> set idx")
    case True
    then have "k - 0x400000 \<noteq> 0x400000 + i" "0 \<le> k - 0x400000"
      using Cons.prems(3,4) by auto
    then have "nat (k - 0x400000) \<noteq> ?t" using i by auto
    then show ?thesis using nth[OF k] True by simp
  next
    case False
    show ?thesis
    proof (cases "k = 0x400000 + i")
      case True
      then show ?thesis using nth[OF k] False i Cons.prems(1) by simp
    next
      case k': False
      then have "nat k \<noteq> ?t" using k i by auto
      then show ?thesis using nth[OF k] False k' by simp
    qed
  qed
  then show ?case using xs step by (intro exI[of _ xs]) simp
qed

lemma set_xrange: "set (xrange lo hi) = {lo..hi - 1}"
  by (simp add: xrange_def)

lemma expand_600000:
  assumes type: "rom_type r = ''Earthbound''" and ok: "block_ok r" and size: "size_b r = 0x300000"
  shows "\<exists>xs. expand 0x600000 r = (Inr (), r\<lparr>data := xs, size_b := 0x600000\<rparr>)
           \<and> length xs = 0x600000 \<and> list_all is_byte xs
           \<and> (\<forall>k. 0 \<le> k \<and> k < 0x600000 \<longrightarrow> xs ! nat k = expanded (data r) k)"
proof -
  from ok size have len: "length (data r) = 0x300000" and bytes: "list_all is_byte (data r)"
    by (auto simp: block_ok_def)
  let ?d1 = "data r @ replicate 0x100000 0"
  let ?r1 = "r\<lparr>data := ?d1, size_b := 0x400000\<rparr>"
  let ?d3 = "?d1[0xffd5 := 0x25, 0xffd7 := 0x0d]"
  let ?d4 = "?d3 @ replicate 0x200000 0"
  let ?r4 = "r\<lparr>data := ?d4, size_b := 0x600000\<rparr>"
  have s1: "setitem 0xffd5 0x25 ?r1 = (Inr (), ?r1\<lparr>data := ?d1[0xffd5 := 0x25]\<rparr>)"
    using setitem_in_bounds[of ?r1 "0xffd5" "0x25"] len by (simp add: is_byte_def)
  have s2: "setitem 0xffd7 0x0d (?r1\<lparr>data := ?d1[0xffd5 := 0x25]\<rparr>)
              = (Inr (), ?r1\<lparr>data := ?d3\<rparr>)"
    using setitem_in_bounds[of "?r1\<lparr>data := ?d1[0xffd5 := 0x25]\<rparr>" "0xffd7" "0x0d"] len
    by (simp add: is_byte_def)
  have e: "expand 0x600000 r = expand_copy (xrange 0x8000 0x10000) ?r4"
    using type size s1 s2 by (simp add: expand_def)
  have b4: "list_all is_byte ?d4"
    using bytes by (auto simp: list_all_iff is_byte_def dest!: set_update_subset_insert[THEN subsetD])
  have l4: "length ?d4 = 0x600000" using len by simp
  have n4: "?d4 ! nat k = patched (data r) k" if "0 \<le> k" "k < 0x600000" for k
    using that len by (auto simp: patched_def nth_append nth_list_update)
  have "\<exists>xs. expand_copy (xrange 0x8000 0x10000) ?r4 = (Inr (), ?r4\<lparr>data := xs\<rparr>)
           \<and> length xs = length (data ?r4) \<and> list_all is_byte xs
           \<and> (\<forall>k. 0 \<le> k \<and> k < size_b ?r4 \<longrightarrow>
                 xs ! nat k = (if k - 0x400000 \<in> set (xrange 0x8000 0x10000)
                               then data ?r4 ! nat (k - 0x400000)
                               else data ?r4 ! nat k))"
    using b4 l4 by (intro expand_copy_result) (auto simp: set_xrange)
  then obtain xs where xs: "expand_copy (xrange 0x8000 0x10000) ?r4 = (Inr (), ?r4\<lparr>data := xs\<rparr>)"
    "length xs = 0x600000" "list_all is_byte xs"
    and nth: "\<And>k. 0 \<le> k \<Longrightarrow> k < 0x600000 \<Longrightarrow>
       xs ! nat k = (if k - 0x400000 \<in> set (xrange 0x8000 0x10000)
                     then ?d4 ! nat (k - 0x400000) else ?d4 ! nat k)"
    using l4 by auto
  have "xs ! nat k = expanded (data r) k" if k: "0 \<le> k" "k < 0x600000" for k
  proof (cases "0x408000 \<le> k \<and> k < 0x410000")
    case True
    then have "k - 0x400000 \<in> set (xrange 0x8000 0x10000)" by (simp add: set_xrange)
    moreover have "?d4 ! nat (k - 0x400000) = patched (data r) (k - 0x400000)"
      using True by (intro n4) auto
    ultimately show ?thesis using nth[OF k] True by (simp add: expanded_def)
  next
    case False
    then have "k - 0x400000 \<notin> set (xrange 0x8000 0x10000)" by (auto simp: set_xrange)
    then show ?thesis using nth[OF k] n4[OF k] False by (auto simp: expanded_def)
  qed
  then show ?thesis using e xs by (intro exI[of _ xs]) simp
qed

lemma expand_600000_reads:
  assumes "rom_type r = ''Earthbound''" and "block_ok r" and "size_b r = 0x300000"
  shows "fst (expand 0x600000 r) = Inr ()"
    and "size_b (snd (expand 0x600000 r)) = 0x600000"
    and "int (length (data (snd (expand 0x600000 r)))) = 0x600000"
    and "0 \<le> k \<Longrightarrow> k < 0x600000 \<Longrightarrow>
           getitem (snd (expand 0x600000 r)) k = Inr (expanded (data r) k)"
proof -
  from expand_600000[OF assms] obtain xs where
    e: "expand 0x600000 r = (Inr (), r\<lparr>data := xs, size_b := 0x600000\<rparr>)"
    and l: "length xs = 0x600000"
    and n: "\<And>k. 0 \<le> k \<Longrightarrow> k < 0x600000 \<Longrightarrow> xs ! nat k = expanded (data r) k"
    by blast
  show "fst (expand 0x600000 r) = Inr ()" "size_b (snd (expand 0x600000 r)) = 0x600000"
    "int (length (data (snd (expand 0x600000 r)))) = 0x600000"
    by (simp_all add: e l)
  show "getitem (snd (expand 0x600000 r)) k = Inr (expanded (data r) k)"
    if "0 \<le> k" "k < 0x600000"
    using getitem_in_bounds[of "r\<lparr>data := xs, size_b := 0x600000\<rparr>" k] that l n[OF that]
    by (simp add: e)
qed

lemma expand_illegal_target:
  "rom_type r = ''Earthbound'' \<Longrightarrow> d \<noteq> 0x400000 \<Longrightarrow> d \<noteq> 0x600000
     \<Longrightarrow> expand d r = (Inl InvalidArgumentError, r)"
  by (simp add: expand_def)

text \<open>
  C5, as the code has it. For an Earthbound image of \<open>0x300000\<close> bytes,
  \<^verbatim>\<open>expand(0x600000)\<close> returns normally and leaves \<open>0x600000\<close> bytes; the bytes at
  \<open>0xffd5\<close> and \<open>0xffd7\<close> are \<open>0x25\<close> and \<open>0x0d\<close>; the bytes at the offsets
  \<open>0x8000\<close> to \<open>0xffff\<close> (the second half of the first bank, the two control bytes
  among them) are copied to \<open>0x408000\<close> to \<open>0x40ffff\<close>; every other original byte is
  unchanged and every other new byte is 0. \<^verbatim>\<open>expand(0x500000)\<close> raises
  \<^verbatim>\<open>InvalidArgumentError\<close>.
\<close>

theorem expand_earthbound:
  assumes type: "rom_type r = ''Earthbound''" and ok: "block_ok r" and size: "size_b r = 0x300000"
  shows "fst (expand 0x600000 r) = Inr ()
       \<and> size_b (snd (expand 0x600000 r)) = 0x600000
       \<and> int (length (data (snd (expand 0x600000 r)))) = 0x600000
       \<and> getitem (snd (expand 0x600000 r)) 0xffd5 = Inr 0x25
       \<and> getitem (snd (expand 0x600000 r)) 0xffd7 = Inr 0x0d
       \<and> (\<forall>i. 0x8000 \<le> i \<and> i < 0x10000 \<longrightarrow>
             getitem (snd (expand 0x600000 r)) (0x400000 + i)
               = getitem (snd (expand 0x600000 r)) i)
       \<and> (\<forall>i. 0 \<le> i \<and> i < 0x300000 \<and> i \<noteq> 0xffd5 \<and> i \<noteq> 0xffd7 \<longrightarrow>
             getitem (snd (expand 0x600000 r)) i = getitem r i)
       \<and> (\<forall>i. 0x300000 \<le> i \<and> i < 0x600000 \<and> \<not> (0x408000 \<le> i \<and> i < 0x410000) \<longrightarrow>
             getitem (snd (expand 0x600000 r)) i = Inr 0)
       \<and> fst (expand 0x500000 r) = Inl InvalidArgumentError"
proof -
  note rd = expand_600000_reads[OF assms]
  from ok have len: "size_b r = int (length (data r))" by (simp add: block_ok_def)
  have 1: "getitem (snd (expand 0x600000 r)) 0xffd5 = Inr 0x25"
    "getitem (snd (expand 0x600000 r)) 0xffd7 = Inr 0x0d"
    by (simp_all add: rd(4) expanded_def patched_def)
  have 2: "getitem (snd (expand 0x600000 r)) (0x400000 + i) = getitem (snd (expand 0x600000 r)) i"
    if "0x8000 \<le> i" "i < 0x10000" for i
    using that by (simp add: rd(4) expanded_def)
  have 3: "getitem (snd (expand 0x600000 r)) i = getitem r i"
    if "0 \<le> i" "i < 0x300000" "i \<noteq> 0xffd5" "i \<noteq> 0xffd7" for i
    using that getitem_in_bounds[OF len, of i] size by (simp add: rd(4) expanded_def patched_def)
  have 4: "getitem (snd (expand 0x600000 r)) i = Inr 0"
    if "0x300000 \<le> i" "i < 0x600000" "\<not> (0x408000 \<le> i \<and> i < 0x410000)" for i
    using that by (auto simp: rd(4) expanded_def patched_def)
  have 5: "fst (expand 0x500000 r) = Inl InvalidArgumentError"
    using type by (simp add: expand_illegal_target)
  from rd(1-3) 1 2 3 4 5 show ?thesis by blast
qed

lemma ones_rom_ok: "rom_type ones_rom = ''Earthbound'' \<and> block_ok ones_rom \<and> size_b ones_rom = 0x300000"
  by (simp add: ones_rom_def block_ok_def list_all_iff is_byte_def)

theorem expand_earthbound_witness:
  "fst (expand 0x600000 ones_rom) = Inr ()
   \<and> size_b (snd (expand 0x600000 ones_rom)) = 0x600000
   \<and> getitem (snd (expand 0x600000 ones_rom)) 0xffd5 = Inr 0x25
   \<and> getitem (snd (expand 0x600000 ones_rom)) 0x40ffd5 = Inr 0x25
   \<and> getitem (snd (expand 0x600000 ones_rom)) 0x8000 = Inr 1
   \<and> getitem (snd (expand 0x600000 ones_rom)) 0x408000 = Inr 1
   \<and> fst (expand 0x500000 ones_rom) = Inl InvalidArgumentError"
proof -
  let ?r = "snd (expand 0x600000 ones_rom)"
  from expand_earthbound[of ones_rom] ones_rom_ok
  have a: "fst (expand 0x600000 ones_rom) = Inr ()" "size_b ?r = 0x600000"
      "getitem ?r 0xffd5 = Inr 0x25" "fst (expand 0x500000 ones_rom) = Inl InvalidArgumentError"
    and m: "\<And>i. 0x8000 \<le> i \<Longrightarrow> i < 0x10000 \<Longrightarrow> getitem ?r (0x400000 + i) = getitem ?r i"
    and k: "\<And>i. 0 \<le> i \<Longrightarrow> i < 0x300000 \<Longrightarrow> i \<noteq> 0xffd5 \<Longrightarrow> i \<noteq> 0xffd7
              \<Longrightarrow> getitem ?r i = getitem ones_rom i"
    by simp_all
  have "getitem ones_rom 0x8000 = Inr 1"
    by (simp add: getitem_def array_get_def array_index_def ones_rom_def)
  with k[of "0x8000"] have l: "getitem ?r 0x8000 = Inr 1" by simp
  from m[of "0xffd5"] m[of "0x8000"] a l show ?thesis by simp
qed

text \<open>
  C5, as the claim states it, says that the first \<open>0x8000\<close> bytes of the buffer are
  copied to offset \<open>0x400000\<close>. The loop runs over
  \<^verbatim>\<open>xrange(0x8000, 0x8000 + 0x8000)\<close>: in the image of ones the byte at offset 0 is 1 before
  and after, and the byte at \<open>0x400000\<close> is 0.
\<close>

theorem expand_first_bytes_not_mirrored:
  "fst (expand 0x600000 ones_rom) = Inr ()
   \<and> getitem ones_rom 0 = Inr 1
   \<and> getitem (snd (expand 0x600000 ones_rom)) 0 = Inr 1
   \<and> getitem (snd (expand 0x600000 ones_rom)) 0x400000 = Inr 0"
proof -
  have ok: "rom_type ones_rom = ''Earthbound''" "block_ok ones_rom" "size_b ones_rom = 0x300000"
    using ones_rom_ok by simp_all
  note rd = expand_600000_reads[OF ok]
  have "getitem ones_rom 0 = Inr 1"
    by (simp add: getitem_def array_get_def array_index_def ones_rom_def)
  moreover have "getitem (snd (expand 0x600000 ones_rom)) 0 = Inr 1"
    by (simp add: rd(4) expanded_def patched_def) (simp add: ones_rom_def)
  moreover have "getitem (snd (expand 0x600000 ones_rom)) 0x400000 = Inr 0"
    by (simp add: rd(4) expanded_def patched_def)
  ultimately show ?thesis using rd(1) by simp
qed

section \<open>mark_allocated and the invariant of the free ranges\<close>

lemma first_index_Some:
  assumes "first_index P xs = Some i"
  shows "i < length xs" and "P (xs ! i)" and "xs = take i xs @ xs ! i # drop (Suc i) xs"
proof -
  show "i < length xs" using assms
    by (induction xs arbitrary: i) (auto split: if_splits)
  then show "xs = take i xs @ xs ! i # drop (Suc i) xs" by (rule id_take_nth_drop)
  show "P (xs ! i)" using assms
    by (induction xs arbitrary: i) (auto split: if_splits)
qed

lemma first_index_None: "first_index P xs = None \<longleftrightarrow> (\<forall>x \<in> set xs. \<not> P x)"
  by (induction xs) auto

lemma separated_Nil [simp]: "separated g []"
  by (simp add: separated_def)

lemma separated_split:
  "separated g (pre @ (b, e) # post) \<longleftrightarrow>
     separated g pre \<and> separated g post \<and> b \<le> e
     \<and> (\<forall>p \<in> set pre. snd p + g < b \<and> fst p \<le> b)
     \<and> (\<forall>q \<in> set post. e + g < fst q \<and> b \<le> fst q)
     \<and> (\<forall>p \<in> set pre. \<forall>q \<in> set post. snd p + g < fst q \<and> fst p \<le> fst q)"
  by (auto simp: separated_def sorted_append sorted_wrt_append)

lemma separated_append:
  "separated g (pre @ post) \<longleftrightarrow>
     separated g pre \<and> separated g post
     \<and> (\<forall>p \<in> set pre. \<forall>q \<in> set post. snd p + g < fst q \<and> fst p \<le> fst q)"
  by (auto simp: separated_def sorted_append sorted_wrt_append)

lemma separated_sorted:
  assumes "separated g rs" "0 \<le> g"
  shows "sorted rs"
proof -
  have v: "\<forall>x \<in> set rs. fst x \<le> snd x"
    using assms(1) by (auto simp: separated_def list_all_iff)
  have "sorted_wrt (\<lambda>r r'. snd r + g < fst r') rs"
    using assms(1) by (simp add: separated_def)
  then have "sorted_wrt (\<le>) rs"
  proof (rule sorted_wrt_mono_rel[rotated])
    fix x y assume "x \<in> set rs" "y \<in> set rs"
      and "snd x + g < fst y"
    with v assms(2) show "x \<le> y"
      by (fastforce simp: less_eq_prod_def)
  qed
  then show ?thesis by simp
qed

lemma sort_swapped:
  assumes "separated g (pre @ x # y # post)" "0 \<le> g"
  shows "sort (pre @ y # x # post) = pre @ x # y # post"
  by (rule properties_for_sort) (use separated_sorted[OF assms] in simp_all)

lemma covers_wider: "covers (a, e) x \<Longrightarrow> a \<le> a' \<Longrightarrow> covers (a', e) x"
  by (simp add: covers_def)

text \<open>
  The induction over the calls of \<^verbatim>\<open>mark_allocated\<close>. \<open>pre\<close> and \<open>post\<close> are the
  entries before and after the index \<open>i\<close> the loop stops at; the six cases are the
  branches of the loop body. Whether the call returns or raises, the list it leaves is
  separated, and no entry of it covers the range.
\<close>

lemma mark_allocated_invariant:
  assumes "separated g (unallocated_ranges blk)" and "g = 0 \<or> g = 1"
  shows "separated g (unallocated_ranges (snd (mark_allocated r blk)))
       \<and> (check_range_validity r (size_b blk) = Inr ()
            \<longrightarrow> \<not> list_ex (covers r) (unallocated_ranges (snd (mark_allocated r blk))))"
  using assms
proof (induction r blk rule: mark_allocated.induct)
  case (1 ab ae blk)
  let ?rs = "unallocated_ranges blk"
  show ?case
  proof (cases "check_range_validity (ab, ae) (size_b blk)")
    case (Inl err)
    then show ?thesis using "1.prems" by (subst (1 2) mark_allocated.simps) simp
  next
    case (Inr u)
    then have range: "ab \<le> ae" "0 \<le> ab" "ae < size_b blk"
      by (auto simp: check_range_validity_def split: if_splits)
    show ?thesis
    proof (cases "first_index (mark_test ab ae) ?rs")
      case None
      then have "\<forall>x \<in> set ?rs. \<not> mark_test ab ae x" by (simp add: first_index_None)
      then have "\<not> list_ex (covers (ab, ae)) ?rs"
        by (fastforce simp: list_ex_iff covers_def mark_test_def)
      moreover have "mark_allocated (ab, ae) blk = (Inl CouldNotAllocateError, blk)"
        using Inr None by (subst mark_allocated.simps) simp
      ultimately show ?thesis using "1.prems" by simp
    next
      case (Some i)
      obtain rb re where at: "?rs ! i = (rb, re)" by (cases "?rs ! i")
      define pre where "pre = take i ?rs"
      define post where "post = drop (Suc i) ?rs"
      from first_index_Some[OF Some]
      have i: "i < length ?rs" and test: "mark_test ab ae (rb, re)"
        and split: "?rs = pre @ (rb, re) # post"
        by (simp_all add: at pre_def post_def)
      have lp: "length pre = i" using i by (simp add: pre_def)
      have upd: "?rs[i := x] = pre @ x # post" for x
        using i by (simp add: pre_def post_def upd_conv_take_nth_drop)
      have del: "list_del i ?rs = pre @ post"
        by (simp add: list_del_def pre_def post_def)
      have ins: "list_insert i y (?rs[i := x]) = pre @ y # x # post" for x y
        by (simp add: list_insert_def upd lp)
      from "1.prems"(1) have sep: "separated g (pre @ (rb, re) # post)" using split by simp
      have g: "0 \<le> g" "g \<le> 1" using "1.prems"(2) by auto
      from sep have s: "separated g pre" "separated g post" "rb \<le> re"
        "\<forall>p \<in> set pre. snd p + g < rb \<and> fst p \<le> rb"
        "\<forall>q \<in> set post. re + g < fst q \<and> rb \<le> fst q"
        "\<forall>p \<in> set pre. \<forall>q \<in> set post. snd p + g < fst q \<and> fst p \<le> fst q"
        by (simp_all add: separated_split)
      have "ab = rb \<and> ae < re \<or> ab = rb \<and> ae = re \<or> ab = rb \<and> re < ae
          \<or> rb < ab \<and> ae < re \<or> rb < ab \<and> ae = re \<or> rb < ab \<and> ab < re \<and> re < ae"
        using test unfolding mark_test_def by simp arith
      then consider (a) "ab = rb" "ae < re" | (b) "ab = rb" "ae = re" | (c) "ab = rb" "re < ae"
        | (d) "rb < ab" "ae < re" | (e) "rb < ab" "ae = re" | (f) "rb < ab" "ab < re" "re < ae"
        by blast
      then show ?thesis
      proof cases
        case a
        have m: "mark_allocated (ab, ae) blk
                   = (Inr (), blk\<lparr>unallocated_ranges := pre @ (ae + 1, re) # post\<rparr>)"
          using Inr Some at a by (subst mark_allocated.simps) (simp add: upd)
        have "separated g (pre @ (ae + 1, re) # post)"
          using s a range g by (auto simp: separated_split)
        moreover have "\<not> list_ex (covers (ab, ae)) (pre @ (ae + 1, re) # post)"
          using s a range g by (fastforce simp: list_ex_iff covers_def)
        ultimately show ?thesis by (simp add: m)
      next
        case b
        have m: "mark_allocated (ab, ae) blk = (Inr (), blk\<lparr>unallocated_ranges := pre @ post\<rparr>)"
          using Inr Some at b by (subst mark_allocated.simps) (simp add: del)
        have "separated g (pre @ post)"
          using s by (auto simp: separated_append)
        moreover have "\<not> list_ex (covers (ab, ae)) (pre @ post)"
          using s b range g by (fastforce simp: list_ex_iff covers_def)
        ultimately show ?thesis by (simp add: m)
      next
        case c
        let ?blk' = "blk\<lparr>unallocated_ranges := pre @ post\<rparr>"
        have m: "mark_allocated (ab, ae) blk = mark_allocated (re + 1, ae) ?blk'"
          using Inr Some at c by (subst mark_allocated.simps) (simp add: del)
        have sep': "separated g (unallocated_ranges ?blk')"
          using s by (auto simp: separated_append)
        have "separated g (unallocated_ranges (snd (mark_allocated (re + 1, ae) ?blk')))
            \<and> (check_range_validity (re + 1, ae) (size_b ?blk') = Inr ()
                 \<longrightarrow> \<not> list_ex (covers (re + 1, ae))
                        (unallocated_ranges (snd (mark_allocated (re + 1, ae) ?blk'))))"
          using "1.IH"(1)[OF Inr Some at[symmetric] c(1)] c(2) sep' "1.prems"(2)
          by (simp add: del)
        moreover have "check_range_validity (re + 1, ae) (size_b ?blk') = Inr ()"
          using c s range by (simp add: check_range_validity_def)
        moreover have "ab \<le> re + 1" using c s by simp
        ultimately show ?thesis
          unfolding m using covers_wider[of ab ae _ "re + 1"] by (auto simp: list_ex_iff)
      next
        case d
        have m: "mark_allocated (ab, ae) blk
                   = (Inr (), blk\<lparr>unallocated_ranges :=
                        sort (pre @ (ae + 1, re) # (rb, ab - 1) # post)\<rparr>)"
          using Inr Some at d by (subst mark_allocated.simps) (simp add: ins)
        have sep': "separated g (pre @ (rb, ab - 1) # (ae + 1, re) # post)"
          using s d range g separated_split[of g "pre @ [(rb, ab - 1)]" "ae + 1" re post]
          by (auto simp: separated_split)
        have so: "sort (pre @ (ae + 1, re) # (rb, ab - 1) # post)
                    = pre @ (rb, ab - 1) # (ae + 1, re) # post"
          using sep' g(1) by (rule sort_swapped)
        have "\<not> list_ex (covers (ab, ae)) (pre @ (rb, ab - 1) # (ae + 1, re) # post)"
          using s d range g by (fastforce simp: list_ex_iff covers_def)
        then show ?thesis using sep' by (simp add: m so)
      next
        case e
        have m: "mark_allocated (ab, ae) blk
                   = (Inr (), blk\<lparr>unallocated_ranges := pre @ (rb, ab - 1) # post\<rparr>)"
          using Inr Some at e by (subst mark_allocated.simps) (simp add: upd)
        have "separated g (pre @ (rb, ab - 1) # post)"
          using s e range g by (auto simp: separated_split)
        moreover have "\<not> list_ex (covers (ab, ae)) (pre @ (rb, ab - 1) # post)"
          using s e range g by (fastforce simp: list_ex_iff covers_def)
        ultimately show ?thesis by (simp add: m)
      next
        case f
        let ?blk' = "blk\<lparr>unallocated_ranges := pre @ (rb, ab - 1) # post\<rparr>"
        have m: "mark_allocated (ab, ae) blk = mark_allocated (re + 1, ae) ?blk'"
          using Inr Some at f by (subst mark_allocated.simps) (simp add: upd)
        have sep': "separated g (unallocated_ranges ?blk')"
          using s f range g by (auto simp: separated_split)
        have "separated g (unallocated_ranges (snd (mark_allocated (re + 1, ae) ?blk')))
            \<and> (check_range_validity (re + 1, ae) (size_b ?blk') = Inr ()
                 \<longrightarrow> \<not> list_ex (covers (re + 1, ae))
                        (unallocated_ranges (snd (mark_allocated (re + 1, ae) ?blk'))))"
          using "1.IH"(2)[OF Inr Some at[symmetric]] f sep' "1.prems"(2)
          by (simp add: upd)
        moreover have "check_range_validity (re + 1, ae) (size_b ?blk') = Inr ()"
          using f s range by (simp add: check_range_validity_def)
        moreover have "ab \<le> re + 1" using f by simp
        ultimately show ?thesis
          unfolding m using covers_wider[of ab ae _ "re + 1"] by (auto simp: list_ex_iff)
      qed
    qed
  qed
qed

lemma mark_allocated_size: "size_b (snd (mark_allocated r blk)) = size_b blk"
proof (induction r blk rule: mark_allocated.induct)
  case (1 ab ae blk)
  show ?case
    by (subst mark_allocated.simps) (auto split: sum.splits option.splits prod.splits simp: 1)
qed

lemma allocate_search_Some:
  assumes "allocate_search n p rs = Some (r, rs')"
  shows "\<exists>pre b e post. rs = pre @ (b, e) # post \<and> n \<le> e - b + 1
           \<and> rs' = pre @ (if b + n - 1 = e then [] else [(b + n, e)]) @ post"
  using assms
proof (induction rs arbitrary: rs')
  case Nil
  then show ?case by simp
next
  case (Cons x rs)
  obtain b e where x: "x = (b, e)" by (cases x)
  show ?case
  proof (cases "n \<le> e - b + 1 \<and> can_write p b")
    case True
    with Cons.prems have "rs' = [] @ (if b + n - 1 = e then [] else [(b + n, e)]) @ rs"
      by (auto simp: x)
    moreover have "x # rs = [] @ (b, e) # rs" by (simp add: x)
    ultimately show ?thesis using True by blast
  next
    case False
    with Cons.prems obtain rs'' where r: "allocate_search n p rs = Some (r, rs'')"
      and rs': "rs' = (b, e) # rs''"
      by (auto simp: x)
    from Cons.IH[OF r] obtain pre b' e' post where
      "rs = pre @ (b', e') # post" "n \<le> e' - b' + 1"
      "rs'' = pre @ (if b' + n - 1 = e' then [] else [(b' + n, e')]) @ post"
      by blast
    then have "x # rs = ((b, e) # pre) @ (b', e') # post \<and> n \<le> e' - b' + 1
        \<and> rs' = ((b, e) # pre) @ (if b' + n - 1 = e' then [] else [(b' + n, e')]) @ post"
      by (simp add: x rs')
    then show ?thesis by blast
  qed
qed

lemma allocate_search_separated:
  assumes "separated g rs" "0 \<le> g" "0 < n" "allocate_search n p rs = Some (r, rs')"
  shows "separated g rs'"
proof -
  from allocate_search_Some[OF assms(4)] obtain pre b e post where
    rs: "rs = pre @ (b, e) # post" and n: "n \<le> e - b + 1"
    and rs': "rs' = pre @ (if b + n - 1 = e then [] else [(b + n, e)]) @ post"
    by blast
  from assms(1) have s: "separated g pre" "separated g post" "b \<le> e"
        "\<forall>p \<in> set pre. snd p + g < b \<and> fst p \<le> b"
        "\<forall>q \<in> set post. e + g < fst q \<and> b \<le> fst q"
        "\<forall>p \<in> set pre. \<forall>q \<in> set post. snd p + g < fst q \<and> fst p \<le> fst q"
    by (simp_all add: rs separated_split)
  show ?thesis
  proof (cases "b + n - 1 = e")
    case True
    then show ?thesis using s by (auto simp: rs' separated_append)
  next
    case False
    then show ?thesis using s n assms(2,3) by (auto simp: rs' separated_split)
  qed
qed

lemma allocate_separated:
  assumes "separated g (unallocated_ranges blk)" "0 \<le> g"
  shows "separated g (unallocated_ranges (snd (allocate d s p blk)))"
proof (cases "invalid_request d s")
  case True
  then show ?thesis using assms by (simp add: allocate_invalid_request)
next
  case False
  then obtain n where n: "effective_size d s = Some n" "0 < n"
    using valid_request_size by blast
  show ?thesis
  proof (cases "allocate_search n p (unallocated_ranges blk)")
    case None
    then show ?thesis using assms allocate_valid_outcome(3)[OF False n(1), of p blk] by simp
  next
    case (Some res)
    obtain rb re rs' where res: "res = ((rb, re), rs')" by (cases res) auto
    have "unallocated_ranges (snd (allocate d s p blk)) = rs'"
      using allocate_found(1)[OF False n(1)] Some res by simp
    then show ?thesis
      using allocate_search_separated[OF assms n(2)] Some res by simp
  qed
qed

text \<open>
  C3. When the free ranges are sorted ascending by \<^verbatim>\<open>begin\<close> and no two of them touch or
  overlap (\<open>gap = 1\<close>), every call of \<^verbatim>\<open>mark_allocated\<close> and every call of
  \<^verbatim>\<open>allocate\<close>, successful or not, leaves them so. The same holds when the ranges may
  touch but not overlap (\<open>gap = 0\<close>).
\<close>

theorem allocation_keeps_ranges_separated:
  assumes "separated g (unallocated_ranges blk)" and "g = 0 \<or> g = 1"
  shows "separated g (unallocated_ranges (snd (mark_allocated r blk)))
       \<and> separated g (unallocated_ranges (snd (allocate d s p blk)))"
  using mark_allocated_invariant[OF assms, of r] allocate_separated[OF assms(1), of d s p] assms(2)
  by auto

theorem allocation_keeps_ranges_separated_witness:
  "separated 1 (unallocated_ranges first_fit_example)
   \<and> unallocated_ranges (snd (mark_allocated (5, 6) first_fit_example))
       = [(0, 1), (4, 4), (7, 10), (12, 14)]
   \<and> separated 1 (unallocated_ranges (snd (mark_allocated (5, 6) first_fit_example)))
   \<and> separated 1 (unallocated_ranges (snd (allocate None (Some 3) None first_fit_example)))"
proof -
  have s: "separated 1 (unallocated_ranges first_fit_example)"
    by (simp add: separated_def first_fit_example_def)
  have m: "unallocated_ranges (snd (mark_allocated (5, 6) first_fit_example))
       = [(0, 1), (4, 4), (7, 10), (12, 14)]"
    by (simp add: mark_allocated.simps first_fit_example_def check_range_validity_def
        mark_test_def list_insert_def less_eq_prod_def)
  from allocation_keeps_ranges_separated[OF s, of "(5, 6)" None "Some 3" None] s m
  show ?thesis by simp
qed

text \<open>
  C4, with the hypothesis it needs. When the free ranges are sorted and no two of them
  overlap, then for every range with \<open>0 \<le> begin \<le> end < size\<close>, \<^verbatim>\<open>is_allocated\<close> on
  the block \<^verbatim>\<open>mark_allocated\<close> leaves returns \<^verbatim>\<open>True\<close>, whether \<^verbatim>\<open>mark_allocated\<close>
  returned or raised.
\<close>

theorem mark_allocated_then_is_allocated:
  assumes "separated 0 (unallocated_ranges blk)"
    and "ab \<le> ae" and "0 \<le> ab" and "ae < size_b blk"
  shows "is_allocated (ab, ae) (snd (mark_allocated (ab, ae) blk)) = Inr True"
proof -
  have v: "check_range_validity (ab, ae) (size_b blk) = Inr ()"
    using assms(2-4) by (simp add: check_range_validity_def)
  with mark_allocated_invariant[OF assms(1), of "(ab, ae)"]
  have "\<not> list_ex (covers (ab, ae)) (unallocated_ranges (snd (mark_allocated (ab, ae) blk)))"
    by simp
  moreover have "covers (ab, ae) = (\<lambda>(rbegin, rend). ab \<ge> rbegin \<and> ae \<le> rend)"
    by (auto simp: covers_def fun_eq_iff)
  ultimately show ?thesis
    using v by (simp add: is_allocated_def is_unallocated_def mark_allocated_size)
qed

theorem mark_allocated_then_is_allocated_witness:
  "fst (mark_allocated (9, 13) first_fit_example) = Inl CouldNotAllocateError
   \<and> is_allocated (9, 13) (snd (mark_allocated (9, 13) first_fit_example)) = Inr True
   \<and> fst (mark_allocated (5, 6) first_fit_example) = Inr ()
   \<and> is_allocated (5, 6) (snd (mark_allocated (5, 6) first_fit_example)) = Inr True"
proof -
  have s: "separated 0 (unallocated_ranges first_fit_example)"
    by (simp add: separated_def first_fit_example_def)
  have "fst (mark_allocated (9, 13) first_fit_example) = Inl CouldNotAllocateError"
    "fst (mark_allocated (5, 6) first_fit_example) = Inr ()"
    by (simp_all add: mark_allocated.simps first_fit_example_def check_range_validity_def
        mark_test_def list_insert_def less_eq_prod_def)
  with mark_allocated_then_is_allocated[OF s, of 9 13]
    mark_allocated_then_is_allocated[OF s, of 5 6]
  show ?thesis by (simp add: first_fit_example_def)
qed

text \<open>
  C4, as the claim states it, does not hold for every list of free ranges. \<^verbatim>\<open>deallocate\<close> does
  not check for overlap: releasing \<open>(3, 5)\<close> while \<open>(0, 10)\<close> is free leaves
  \<open>[(0, 10), (3, 5)]\<close>. \<^verbatim>\<open>mark_allocated((3, 5))\<close> then returns normally, having split
  the first entry only, and \<^verbatim>\<open>is_allocated((3, 5))\<close> is \<^verbatim>\<open>False\<close>.
\<close>

theorem mark_allocated_overlapping_free:
  "unallocated_ranges (snd (deallocate (3, 5) one_free)) = [(0, 10), (3, 5)]
   \<and> fst (mark_allocated (3, 5) (snd (deallocate (3, 5) one_free))) = Inr ()
   \<and> is_allocated (3, 5) (snd (mark_allocated (3, 5) (snd (deallocate (3, 5) one_free))))
       = Inr False"
  by (simp add: mark_allocated.simps one_free_def deallocate_def check_range_validity_def
      mark_test_def list_insert_def less_eq_prod_def is_allocated_def is_unallocated_def)

text \<open>
  C2. The third branch of the loop tests \<^verbatim>\<open>allocated_begin < end\<close>, so a range that
  begins at the last byte of a free entry and spans past it passes no test. With the
  free ranges \<open>[(0, 5), (6, 10)]\<close> (left by \<^verbatim>\<open>allocate(size=6)\<close> and
  \<^verbatim>\<open>deallocate((0, 5))\<close> from \<open>[(0, 10)]\<close>) every byte of \<open>(5, 8)\<close> is free, yet
  \<^verbatim>\<open>mark_allocated((5, 8))\<close> raises \<^verbatim>\<open>CouldNotAllocateError\<close> and changes nothing, while
  \<^verbatim>\<open>mark_allocated((4, 8))\<close> splits the head off and marks the remainder. With the free
  ranges \<open>[(0, 5)]\<close>, \<^verbatim>\<open>mark_allocated((5, 8))\<close> does not split the head off either.
\<close>

theorem mark_allocated_last_byte_of_entry:
  "snd (deallocate (0, 5) (snd (allocate None (Some 6) None one_free))) = touching_free
   \<and> list_all (\<lambda>k. list_ex (covers (k, k)) (unallocated_ranges touching_free)) [5, 6, 7, 8]
   \<and> mark_allocated (5, 8) touching_free = (Inl CouldNotAllocateError, touching_free)
   \<and> mark_allocated (4, 8) touching_free
       = (Inr (), touching_free\<lparr>unallocated_ranges := [(0, 3), (9, 10)]\<rparr>)
   \<and> mark_allocated (5, 8) spanning_example = (Inl CouldNotAllocateError, spanning_example)"
  by (simp add: mark_allocated.simps touching_free_def one_free_def spanning_example_def
      check_range_validity_def mark_test_def list_del_def covers_def allocate_def deallocate_def
      can_write_def less_eq_prod_def)

end
